theory Spec2Isabelle
  imports Main
begin

section \<open>Text and the regular expressions of \<open>bot/cogs/filtering.py\<close>\<close>

text \<open>
  Message text is a \<^typ>\<open>string\<close>; a character stands for the code point of the same
  number (U+0000 to U+00FF).  The compiled patterns of the module are embedded as the
  functions that \<open>re\<close> computes for them on such text.

  \<open>SPOILER_RE = re.compile(r"(\|\|.+?\|\|)", re.DOTALL)\<close>: two bars, at least one
  arbitrary character (lazily), two bars.  A match at the start of \<open>s\<close> therefore ends
  with the first \<open>||\<close> that begins at index 3 or later.
\<close>

fun find_bars :: "string \<Rightarrow> nat option" where
  "find_bars (a # b # r) =
     (if a = CHR ''|'' \<and> b = CHR ''|'' then Some 0 else map_option Suc (find_bars (b # r)))"
| "find_bars _ = None"

definition SPOILER_RE_match :: "string \<Rightarrow> (string \<times> string) option" where
  "SPOILER_RE_match s =
     (case s of
        a # b # c # r \<Rightarrow>
          (if a = CHR ''|'' \<and> b = CHR ''|'' then
             (case find_bars r of
                Some k \<Rightarrow> Some (take (k + 5) s, drop (k + 5) s)
              | None \<Rightarrow> None)
           else None)
      | _ \<Rightarrow> None)"

lemma SPOILER_RE_match_shorter:
  "SPOILER_RE_match s = Some (m, rest) \<Longrightarrow> length rest < length s"
  by (auto simp: SPOILER_RE_match_def split: list.splits if_splits option.splits)

lemma SPOILER_RE_match_append:
  "SPOILER_RE_match s = Some (m, rest) \<Longrightarrow> m @ rest = s"
  by (auto simp: SPOILER_RE_match_def split: list.splits if_splits option.splits)

text \<open>
  \<open>SPOILER_RE.split(text)\<close>: the pattern has one capturing group, so the result
  alternates the text between matches (even indices) with the matches themselves (odd
  indices).  \<open>acc\<close> is the text read since the last match.
\<close>

function SPOILER_RE_split_from :: "string \<Rightarrow> string \<Rightarrow> string list" where
  "SPOILER_RE_split_from acc [] = [acc]"
| "SPOILER_RE_split_from acc (c # cs) =
     (case SPOILER_RE_match (c # cs) of
        Some (m, rest) \<Rightarrow> acc # m # SPOILER_RE_split_from [] rest
      | None \<Rightarrow> SPOILER_RE_split_from (acc @ [c]) cs)"
  by pat_completeness auto
termination
  by (relation "measure (\<lambda>(acc, s). length s)")
     (auto dest: SPOILER_RE_match_shorter)

definition SPOILER_RE_split :: "string \<Rightarrow> string list" where
  "SPOILER_RE_split text = SPOILER_RE_split_from [] text"

definition SPOILER_RE_search :: "string \<Rightarrow> bool" where
  "SPOILER_RE_search text = (length (SPOILER_RE_split text) > 1)"

text \<open>The extended slices \<open>xs[0::2]\<close> and \<open>xs[1::2]\<close>.\<close>

fun slice_even :: "'a list \<Rightarrow> 'a list" where
  "slice_even [] = []"
| "slice_even [x] = [x]"
| "slice_even (x # y # xs) = x # slice_even xs"

fun slice_odd :: "'a list \<Rightarrow> 'a list" where
  "slice_odd [] = []"
| "slice_odd [x] = []"
| "slice_odd (x # y # xs) = y # slice_odd xs"

definition expand_spoilers :: "string \<Rightarrow> string" where
  "expand_spoilers text =
     (let split_text = SPOILER_RE_split text
      in concat (slice_even split_text @ slice_odd split_text @ split_text))"

text \<open>The part of a text that lies outside every spoiler match.\<close>

definition outside_spoilers :: "string \<Rightarrow> string list" where
  "outside_spoilers text = slice_even (SPOILER_RE_split text)"

text \<open>
  \<open>findall\<close> reads the text from left to right and resumes behind each match.  The
  matcher gives the captured group and the length of the whole match (at least 1 for
  the patterns here); \<open>skip\<close> counts the characters of the last match still to pass.
\<close>

fun re_findall :: "(string \<Rightarrow> (string \<times> nat) option) \<Rightarrow> nat \<Rightarrow> string \<Rightarrow> string list" where
  "re_findall m skip [] = []"
| "re_findall m skip (c # cs) =
     (if skip > 0 then re_findall m (skip - 1) cs
      else (case m (c # cs) of
              Some (g, n) \<Rightarrow> g # re_findall m (n - 1) cs
            | None \<Rightarrow> re_findall m 0 cs))"

text \<open>
  \<open>re.IGNORECASE\<close> on a literal of ASCII letters: below U+0100 only the ASCII capital
  matches the small letter.  \<open>ci_prefix lit s\<close> matches the lower-case literal at the
  start of \<open>s\<close> and gives the rest.
\<close>

definition lower_ascii :: "char \<Rightarrow> char" where
  "lower_ascii c =
     (let n = (of_char c :: nat) in if 65 \<le> n \<and> n \<le> 90 then char_of (n + 32) else c)"

fun ci_prefix :: "string \<Rightarrow> string \<Rightarrow> string option" where
  "ci_prefix [] s = Some s"
| "ci_prefix (p # ps) [] = None"
| "ci_prefix (p # ps) (c # cs) = (if lower_ascii c = p then ci_prefix ps cs else None)"

text \<open>\<open>\s\<close> of a \<open>str\<close> pattern, on the code points below U+0100.\<close>

definition is_space :: "char \<Rightarrow> bool" where
  "is_space c =
     (let n = (of_char c :: nat)
      in (9 \<le> n \<and> n \<le> 13) \<or> (28 \<le> n \<and> n \<le> 32) \<or> n = 133 \<or> n = 160)"

text \<open>
  \<open>URL_RE = re.compile(r"(https?://[^\s]+)", flags=re.IGNORECASE)\<close>: the scheme, then
  the longest run of characters that are not white space, at least one.
\<close>

definition URL_RE_match :: "string \<Rightarrow> (string \<times> nat) option" where
  "URL_RE_match s =
     (case Option.bind (ci_prefix ''http'' s)
             (\<lambda>r. case ci_prefix ''s://'' r of Some t \<Rightarrow> Some t | None \<Rightarrow> ci_prefix ''://'' r) of
        None \<Rightarrow> None
      | Some t \<Rightarrow>
          (let body = takeWhile (\<lambda>c. \<not> is_space c) t;
               n = length s - length t + length body
           in if body = [] then None else Some (take n s, n)))"

definition URL_RE_findall :: "string \<Rightarrow> string list" where
  "URL_RE_findall text = re_findall URL_RE_match 0 text"

definition URL_RE_search :: "string \<Rightarrow> bool" where
  "URL_RE_search text = (URL_RE_findall text \<noteq> [])"

text \<open>
  \<open>INVITE_RE\<close>: one of five spellings of the invite domain, a slash or the word
  \<open>slash\<close>, and the invite code \<open>([a-zA-Z0-9]+)\<close>, the only capturing group.  The
  alternatives are tried in the order of the pattern, each together with what follows
  it, as the backtracking matcher does.
\<close>

definition re_dot :: "string \<Rightarrow> string option" where
  "re_dot s =
     (case s of
        [] \<Rightarrow> None
      | c # r \<Rightarrow> if c = CHR ''.'' \<or> c = CHR '','' then Some r else ci_prefix ''dot'' s)"

definition re_slash :: "string \<Rightarrow> string option" where
  "re_slash s =
     (case s of
        [] \<Rightarrow> None
      | c # r \<Rightarrow> if c = CHR ''/'' then Some r else ci_prefix ''slash'' s)"

definition is_alnum :: "char \<Rightarrow> bool" where
  "is_alnum c =
     (let n = (of_char c :: nat)
      in (48 \<le> n \<and> n \<le> 57) \<or> (65 \<le> n \<and> n \<le> 90) \<or> (97 \<le> n \<and> n \<le> 122))"

definition invite_domains :: "(string \<Rightarrow> string option) list" where
  "invite_domains =
     [\<lambda>s. Option.bind (Option.bind (ci_prefix ''discord'' s) re_dot) (ci_prefix ''gg''),
      \<lambda>s. Option.bind (Option.bind (Option.bind (Option.bind (ci_prefix ''discord'' s) re_dot)
             (ci_prefix ''com'')) re_slash) (ci_prefix ''invite''),
      \<lambda>s. Option.bind (Option.bind (Option.bind (Option.bind (ci_prefix ''discordapp'' s) re_dot)
             (ci_prefix ''com'')) re_slash) (ci_prefix ''invite''),
      \<lambda>s. Option.bind (Option.bind (ci_prefix ''discord'' s) re_dot) (ci_prefix ''me''),
      \<lambda>s. Option.bind (Option.bind (ci_prefix ''discord'' s) re_dot) (ci_prefix ''io'')]"

definition invite_code :: "string \<Rightarrow> string \<Rightarrow> (string \<times> nat) option" where
  "invite_code s t =
     (let code = takeWhile is_alnum t
      in if code = [] then None else Some (code, length s - length t + length code))"

fun first_alternative :: "(string \<Rightarrow> string option) list \<Rightarrow> string \<Rightarrow> (string \<times> nat) option" where
  "first_alternative [] s = None"
| "first_alternative (alt # alts) s =
     (case Option.bind (Option.bind (alt s) re_slash) (invite_code s) of
        Some r \<Rightarrow> Some r
      | None \<Rightarrow> first_alternative alts s)"

definition INVITE_RE_match :: "string \<Rightarrow> (string \<times> nat) option" where
  "INVITE_RE_match s = first_alternative invite_domains s"

definition INVITE_RE_findall :: "string \<Rightarrow> string list" where
  "INVITE_RE_findall text = re_findall INVITE_RE_match 0 text"

section \<open>Data model\<close>

text \<open>
  A \<open>datetime\<close> is naive, as the library hands it out: microseconds since the epoch.
  \<open>msg.author\<close> is a \<open>Member\<close> (with roles) or a \<open>User\<close>; \<open>embed.url\<close> is a string or
  \<open>Embed.Empty\<close>.  The values of \<open>bot.constants.Filter\<close> and the compiled watch list
  patterns are parameters: \<open>bot/constants.py\<close> and the configuration are not part of
  the sources.
\<close>

type_synonym datetime = int

record embed =
  embed_type :: string
  embed_url :: "string option"

record author =
  author_id :: int
  is_member :: bool
  role_ids :: "int list"
  is_bot :: bool
  display_name :: string

record channel =
  channel_id :: int
  is_private :: bool

record message =
  msg_id :: int
  msg_author :: author
  msg_channel :: channel
  content :: string
  embeds :: "embed list"
  created_at :: datetime
  edited_at :: "datetime option"

record filter_config =
  filter_zalgo :: bool
  filter_invites :: bool
  filter_domains :: bool
  watch_regex :: bool
  watch_rich_embeds :: bool
  watch_words :: bool
  watch_tokens :: bool
  notify_user_zalgo :: bool
  notify_user_invites :: bool
  notify_user_domains :: bool
  offensive_msg_delete_days :: int
  ping_everyone :: bool
  channel_whitelist :: "int list"
  role_whitelist :: "int list"
  guild_invite_whitelist :: "int list"
  domain_blacklist :: "string list"

datatype error = AttributeError | KeyError | TypeError | Forbidden | HTTPException

text \<open>The JSON answer of the invite endpoint, and the entry kept for an invite.\<close>

record guild =
  guild_id :: int
  guild_name :: string
  guild_icon :: "string option"

record invite_response =
  response_guild :: "guild option"
  approximate_member_count :: int
  approximate_presence_count :: int

record invite_info =
  info_name :: string
  info_icon :: string
  info_members :: int
  info_active :: int

text \<open>
  What a matcher returns: \<open>False\<close> or \<open>None\<close>, \<open>True\<close>, a \<open>re.Match\<close> (its string, start
  and end) or the dictionary of invite data, in insertion order.
\<close>

datatype match_result =
    NoMatch
  | TrueMatch
  | RegexMatch string nat nat
  | InviteMatch "(string \<times> invite_info) list"

fun truthy :: "match_result \<Rightarrow> bool" where
  "truthy NoMatch = False"
| "truthy TrueMatch = True"
| "truthy (RegexMatch s i j) = True"
| "truthy (InviteMatch d) = (d \<noteq> [])"

record pending =
  pending_id :: int
  pending_channel_id :: int
  delete_date :: datetime

datatype report_body = RawContent string | RegexReport string string string

datatype additional_embeds = NoEmbeds | GuildEmbeds "(string \<times> invite_info) list" | MessageEmbeds "embed list"

record log_message =
  log_filter_name :: string
  log_filter_type :: string
  log_author_id :: int
  log_via_dm :: bool
  log_body :: report_body
  log_additional :: additional_embeds
  log_ping_everyone :: bool

text \<open>
  The calls a rule makes on the outside world once it has matched, in the order made.
\<close>

datatype action =
    DeleteMessage int
  | SendDM int string
  | SendChannel int int string
  | ApiPost pending
  | ScheduleTask int pending
  | StatsIncr string
  | SendLogMessage log_message

text \<open>
  The trace of one event: the call of a rule's matcher, the invite lookups a matcher
  makes, the actions, each with the name of the rule that takes it, and the two calls of
  the username check (the alert with the matched substrings, and the write to the
  \<open>name_alerts\<close> cache).
\<close>

datatype event =
    MatcherCall string
  | InviteLookup string
  | RuleAction string action
  | NameAlert int string "string list"
  | NameAlertsSet int int

datatype delete_result = Deleted | NotFound | DeleteRaised error

text \<open>
  The outside world as one event meets it: the invite endpoint, what \<open>msg.delete()\<close>
  does, and whether the author refuses direct messages.
\<close>

record env =
  invite_api :: "string \<Rightarrow> invite_response"
  delete_outcome :: delete_result
  dm_forbidden :: bool

section \<open>Matchers\<close>

fun string_of_nat :: "nat \<Rightarrow> string" where
  "string_of_nat n =
     (if n < 10 then [''0123456789'' ! n]
      else string_of_nat (n div 10) @ [''0123456789'' ! (n mod 10)])"

definition string_of_int :: "int \<Rightarrow> string" where
  "string_of_int i = (if i < 0 then CHR ''-'' # string_of_nat (nat (- i)) else string_of_nat (nat i))"

definition guild_icon_url :: "guild \<Rightarrow> string" where
  "guild_icon_url g =
     ''https://cdn.discordapp.com/icons/'' @ string_of_int (guild_id g) @ ''/''
       @ (case guild_icon g of None \<Rightarrow> ''None'' | Some h \<Rightarrow> h) @ ''.png?size=512''"

text \<open>
  The loop of \<open>_has_invites\<close> over the codes found.  \<open>invite_data\<close> is the dictionary
  built so far; a code is skipped only when it is a key of it.  The result comes with
  the codes sent to the invite endpoint, in the order of the calls.
\<close>

fun invites_loop ::
  "(string \<Rightarrow> invite_response) \<Rightarrow> int list \<Rightarrow> string list \<Rightarrow> (string \<times> invite_info) list
     \<Rightarrow> string list \<times> match_result" where
  "invites_loop api whitelist [] invite_data =
     ([], if invite_data = [] then NoMatch else InviteMatch invite_data)"
| "invites_loop api whitelist (invite # invites) invite_data =
     (if invite \<in> fst ` set invite_data then invites_loop api whitelist invites invite_data
      else
        (let response = api invite in
         case response_guild response of
           None \<Rightarrow> ([invite], TrueMatch)
         | Some g \<Rightarrow>
             (let invite_data' =
                    (if guild_id g \<notin> set whitelist then
                       invite_data @
                         [(invite,
                           \<lparr>info_name = guild_name g, info_icon = guild_icon_url g,
                            info_members = approximate_member_count response,
                            info_active = approximate_presence_count response\<rparr>)]
                     else invite_data);
                  (looked_up, result) = invites_loop api whitelist invites invite_data'
              in (invite # looked_up, result))))"

definition has_invites :: "(string \<Rightarrow> invite_response) \<Rightarrow> int list \<Rightarrow> string \<Rightarrow> string list \<times> match_result" where
  "has_invites api whitelist text =
     (let text' = filter (\<lambda>c. c \<noteq> CHR 0x5C) text;
          invites = INVITE_RE_findall text'
      in invites_loop api whitelist invites [])"

text \<open>
  The test under which the loop records a code: its lookup has a guild that is not in
  \<open>Filter.guild_invite_whitelist\<close>, or no guild at all (the scan then ends).
\<close>

definition not_whitelisted :: "(string \<Rightarrow> invite_response) \<Rightarrow> int list \<Rightarrow> string \<Rightarrow> bool" where
  "not_whitelisted api whitelist c =
     (case response_guild (api c) of None \<Rightarrow> True | Some g \<Rightarrow> guild_id g \<notin> set whitelist)"

text \<open>
  \<open>_has_rich_embed\<close>.  \<open>not embed.url\<close> holds for \<open>Embed.Empty\<close> and for the empty
  string.  Both branches under \<open>embed.type == "rich"\<close> return.
\<close>

fun rich_embed_loop :: "string \<Rightarrow> embed list \<Rightarrow> bool" where
  "rich_embed_loop text [] = False"
| "rich_embed_loop text (e # es) =
     (if embed_type e = ''rich'' then
        (let urls = URL_RE_findall text
         in (case embed_url e of
               None \<Rightarrow> True
             | Some u \<Rightarrow> if u = [] \<or> u \<notin> set urls then True else False))
      else rich_embed_loop text es)"

definition has_rich_embed :: "message \<Rightarrow> bool" where
  "has_rich_embed msg =
     (if embeds msg \<noteq> [] then rich_embed_loop (content msg) (embeds msg) else False)"

text \<open>
  The reading of the docstring of \<open>_has_rich_embed\<close> (``contains any rich embeds not
  auto-generated from a URL''): some embed of the message is rich and has no URL, or a
  URL that is not among those of the text.
\<close>

definition rich_embed_not_from_url :: "string \<Rightarrow> embed \<Rightarrow> bool" where
  "rich_embed_not_from_url text e =
     (embed_type e = ''rich'' \<and>
      (case embed_url e of None \<Rightarrow> True | Some u \<Rightarrow> u = [] \<or> u \<notin> set (URL_RE_findall text)))"

definition any_rich_embed_not_from_url :: "message \<Rightarrow> bool" where
  "any_rich_embed_not_from_url msg = list_ex (rich_embed_not_from_url (content msg)) (embeds msg)"

text \<open>
  \<open>_has_urls\<close>: a URL in the text, and a blacklisted domain inside the lower-cased text.
\<close>

definition py_lower :: "char \<Rightarrow> char" where
  "py_lower c =
     (let n = (of_char c :: nat)
      in if (65 \<le> n \<and> n \<le> 90) \<or> (192 \<le> n \<and> n \<le> 222 \<and> n \<noteq> 215) then char_of (n + 32) else c)"

fun starts_with :: "string \<Rightarrow> string \<Rightarrow> bool" where
  "starts_with [] s = True"
| "starts_with (p # ps) [] = False"
| "starts_with (p # ps) (c # cs) = (p = c \<and> starts_with ps cs)"

fun py_in :: "string \<Rightarrow> string \<Rightarrow> bool" where
  "py_in needle [] = (needle = [])"
| "py_in needle (c # cs) = (starts_with needle (c # cs) \<or> py_in needle cs)"

definition has_urls :: "string list \<Rightarrow> string \<Rightarrow> match_result" where
  "has_urls blacklist text =
     (if \<not> URL_RE_search text then NoMatch
      else if list_ex (\<lambda>url. py_in (map py_lower url) (map py_lower text)) blacklist then TrueMatch
      else NoMatch)"

text \<open>
  A compiled watch list pattern is its \<open>search\<close>: the span of the leftmost match.
  \<open>_has_watch_regex_match\<close> returns \<open>False\<close> for a text with a URL, the first match of
  \<open>WATCHLIST_PATTERNS\<close>, or \<open>None\<close>.
\<close>

type_synonym pattern = "string \<Rightarrow> (nat \<times> nat) option"

fun first_search :: "pattern list \<Rightarrow> string \<Rightarrow> match_result" where
  "first_search [] text = NoMatch"
| "first_search (pattern # patterns) text =
     (case pattern text of
        Some (i, j) \<Rightarrow> RegexMatch text i j
      | None \<Rightarrow> first_search patterns text)"

definition has_watch_regex_match :: "pattern list \<Rightarrow> string \<Rightarrow> match_result" where
  "has_watch_regex_match patterns text =
     (let text' = (if SPOILER_RE_search text then expand_spoilers text else text)
      in if URL_RE_search text' then NoMatch else first_search patterns text')"

section \<open>The rules and the dispatch loop\<close>

text \<open>
  A matcher is called with \<open>msg.content\<close> or with the message.  It returns the invite
  codes it looked up and its result, or raises.  An entry of \<open>self.filters\<close> is a
  dictionary; a key that an entry lacks is \<open>None\<close> here and a \<open>KeyError\<close> when read.
\<close>

datatype arg = Content string | FullMessage message

record rule =
  rule_name :: string
  enabled :: bool
  rule_function :: "arg \<Rightarrow> string list \<times> (error + match_result)"
  rule_type :: string
  content_only :: bool
  user_notification :: "bool option"
  notification_msg :: "string option"
  schedule_deletion :: "bool option"

definition on_content :: "(string \<Rightarrow> string list \<times> match_result) \<Rightarrow> arg \<Rightarrow> string list \<times> (error + match_result)" where
  "on_content f a =
     (case a of
        Content text \<Rightarrow> (fst (f text), Inr (snd (f text)))
      | FullMessage msg \<Rightarrow> ([], Inl TypeError))"

definition on_message_arg :: "(message \<Rightarrow> bool) \<Rightarrow> arg \<Rightarrow> string list \<times> (error + match_result)" where
  "on_message_arg f a =
     (case a of
        FullMessage msg \<Rightarrow> ([], Inr (if f msg then TrueMatch else NoMatch))
      | Content text \<Rightarrow> ([], Inl AttributeError))"

text \<open>
  What the sources do not hold: the search of \<open>ZALGO_RE\<close> (its code points lie above
  U+00FF), the compiled \<open>WATCHLIST_PATTERNS\<close>, and the methods \<open>_has_watchlist_words\<close>
  and \<open>_has_watchlist_tokens\<close>, which the table names and the class does not define.
\<close>

record externals =
  ZALGO_RE_search :: "string \<Rightarrow> bool"
  WATCHLIST_PATTERNS :: "pattern list"
  has_watchlist_words :: "string \<Rightarrow> match_result"
  has_watchlist_tokens :: "string \<Rightarrow> match_result"

definition staff_mistake_str :: string where
  "staff_mistake_str = ''If you believe this was a mistake, please let staff know!''"

text \<open>\<open>self.filters\<close>, in the order of the dictionary.\<close>

definition filters :: "filter_config \<Rightarrow> externals \<Rightarrow> env \<Rightarrow> rule list" where
  "filters cfg ext env =
     [\<lparr>rule_name = ''filter_zalgo'', enabled = filter_zalgo cfg,
       rule_function = on_content (\<lambda>text. ([], if ZALGO_RE_search ext text then TrueMatch else NoMatch)),
       rule_type = ''filter'', content_only = True,
       user_notification = Some (notify_user_zalgo cfg),
       notification_msg = Some
         (''Your post has been removed for abusing Unicode character rendering (aka Zalgo text). ''
            @ staff_mistake_str),
       schedule_deletion = Some False\<rparr>,
      \<lparr>rule_name = ''filter_invites'', enabled = filter_invites cfg,
       rule_function = on_content (has_invites (invite_api env) (guild_invite_whitelist cfg)),
       rule_type = ''filter'', content_only = True,
       user_notification = Some (notify_user_invites cfg),
       notification_msg = Some
         (''Per Rule 6, your invite link has been removed. '' @ staff_mistake_str @ [CHR 0x0A, CHR 0x0A]
            @ ''Our server rules can be found here: <https://pythondiscord.com/pages/rules>''),
       schedule_deletion = Some False\<rparr>,
      \<lparr>rule_name = ''filter_domains'', enabled = filter_domains cfg,
       rule_function = on_content (\<lambda>text. ([], has_urls (domain_blacklist cfg) text)),
       rule_type = ''filter'', content_only = True,
       user_notification = Some (notify_user_domains cfg),
       notification_msg = Some
         (''Your URL has been removed because it matched a blacklisted domain. '' @ staff_mistake_str),
       schedule_deletion = Some False\<rparr>,
      \<lparr>rule_name = ''watch_regex'', enabled = watch_regex cfg,
       rule_function = on_content (\<lambda>text. ([], has_watch_regex_match (WATCHLIST_PATTERNS ext) text)),
       rule_type = ''watchlist'', content_only = True,
       user_notification = None, notification_msg = None, schedule_deletion = None\<rparr>,
      \<lparr>rule_name = ''watch_rich_embeds'', enabled = watch_rich_embeds cfg,
       rule_function = on_message_arg has_rich_embed,
       rule_type = ''watchlist'', content_only = False,
       user_notification = None, notification_msg = None, schedule_deletion = Some False\<rparr>,
      \<lparr>rule_name = ''watch_words'', enabled = watch_words cfg,
       rule_function = on_content (\<lambda>text. ([], has_watchlist_words ext text)),
       rule_type = ''watchlist'', content_only = True,
       user_notification = None, notification_msg = None, schedule_deletion = Some True\<rparr>,
      \<lparr>rule_name = ''watch_tokens'', enabled = watch_tokens cfg,
       rule_function = on_content (\<lambda>text. ([], has_watchlist_tokens ext text)),
       rule_type = ''watchlist'', content_only = True,
       user_notification = None, notification_msg = None, schedule_deletion = Some True\<rparr>]"

text \<open>
  How a step of the handling of a match ends: the next statement runs, the function
  returns, or an exception leaves it.
\<close>

datatype flow = Continue | Return | Raise error

definition then_do :: "action list \<times> flow \<Rightarrow> action list \<times> flow \<Rightarrow> action list \<times> flow" where
  "then_do first rest =
     (case snd first of
        Continue \<Rightarrow> (fst first @ fst rest, snd rest)
      | Return \<Rightarrow> first
      | Raise e \<Rightarrow> first)"

definition notify_member :: "env \<Rightarrow> author \<Rightarrow> string \<Rightarrow> channel \<Rightarrow> action list" where
  "notify_member env filtered_member reason ch =
     SendDM (author_id filtered_member) reason
       # (if dm_forbidden env then [SendChannel (channel_id ch) (author_id filtered_member) reason]
          else [])"

text \<open>Lines 252 to 270: delete the message of a filter outside a DM, and notify.\<close>

definition delete_step :: "env \<Rightarrow> message \<Rightarrow> rule \<Rightarrow> action list \<times> flow" where
  "delete_step env msg f =
     (if rule_type f = ''filter'' \<and> \<not> is_private (msg_channel msg) then
        (case delete_outcome env of
           NotFound \<Rightarrow> ([DeleteMessage (msg_id msg)], Return)
         | DeleteRaised e \<Rightarrow> ([DeleteMessage (msg_id msg)], Raise e)
         | Deleted \<Rightarrow>
             (case user_notification f of
                None \<Rightarrow> ([DeleteMessage (msg_id msg)], Raise KeyError)
              | Some False \<Rightarrow> ([DeleteMessage (msg_id msg)], Continue)
              | Some True \<Rightarrow>
                  (case notification_msg f of
                     None \<Rightarrow> ([DeleteMessage (msg_id msg)], Raise KeyError)
                   | Some reason \<Rightarrow>
                       (DeleteMessage (msg_id msg)
                          # notify_member env (msg_author msg) reason (msg_channel msg),
                        Continue))))
      else ([], Continue))"

text \<open>
  Lines 272 to 284: the record of an offensive message.  \<open>delete_date\<close> stands for
  the ISO string of \<open>msg.created_at + OFFENSIVE_MSG_DELETE_TIME\<close>.
\<close>

definition timedelta_days :: "int \<Rightarrow> int" where
  "timedelta_days d = d * 86400000000"

definition OFFENSIVE_MSG_DELETE_TIME :: "filter_config \<Rightarrow> int" where
  "OFFENSIVE_MSG_DELETE_TIME cfg = timedelta_days (offensive_msg_delete_days cfg)"

definition schedule_step :: "filter_config \<Rightarrow> message \<Rightarrow> rule \<Rightarrow> action list \<times> flow" where
  "schedule_step cfg msg f =
     (case schedule_deletion f of
        None \<Rightarrow> ([], Raise KeyError)
      | Some sd \<Rightarrow>
          if sd \<and> \<not> is_private (msg_channel msg) then
            (let data = \<lparr>pending_id = msg_id msg, pending_channel_id = channel_id (msg_channel msg),
                         delete_date = created_at msg + OFFENSIVE_MSG_DELETE_TIME cfg\<rparr>
             in ([ApiPost data, ScheduleTask (msg_id msg) data], Continue))
          else ([], Continue))"

text \<open>
  Lines 286 to 347: the report.  Its text is kept in parts: the rule's name and type,
  the author, whether the channel is a DM, and the body.
\<close>

definition report_body_of :: "message \<Rightarrow> rule \<Rightarrow> match_result \<Rightarrow> error + report_body" where
  "report_body_of msg f m =
     (if rule_name f = ''watch_regex'' then
        (case m of
           RegexMatch s i j \<Rightarrow>
             Inr (RegexReport (take (j - i) (drop i s))
                    (take ((j + 10) - (i - 10)) (drop (i - 10) s)) (content msg))
         | _ \<Rightarrow> Inl AttributeError)
      else Inr (RawContent (content msg)))"

definition additional_embeds_of :: "message \<Rightarrow> rule \<Rightarrow> match_result \<Rightarrow> error + additional_embeds" where
  "additional_embeds_of msg f m =
     (if rule_name f = ''filter_invites'' \<and> m \<noteq> TrueMatch then
        (case m of InviteMatch d \<Rightarrow> Inr (GuildEmbeds d) | _ \<Rightarrow> Inl AttributeError)
      else if rule_name f = ''watch_rich_embeds'' then Inr (MessageEmbeds (embeds msg))
      else Inr NoEmbeds)"

definition report_step :: "filter_config \<Rightarrow> message \<Rightarrow> rule \<Rightarrow> match_result \<Rightarrow> action list \<times> flow" where
  "report_step cfg msg f m =
     (case report_body_of msg f m of
        Inl e \<Rightarrow> ([], Raise e)
      | Inr body \<Rightarrow>
          (case additional_embeds_of msg f m of
             Inl e \<Rightarrow> ([StatsIncr (rule_name f)], Raise e)
           | Inr extra \<Rightarrow>
               ([StatsIncr (rule_name f),
                 SendLogMessage
                   \<lparr>log_filter_name = rule_name f, log_filter_type = rule_type f,
                    log_author_id = author_id (msg_author msg),
                    log_via_dm = is_private (msg_channel msg),
                    log_body = body, log_additional = extra,
                    log_ping_everyone = ping_everyone cfg\<rparr>],
                Continue)))"

definition on_match :: "filter_config \<Rightarrow> env \<Rightarrow> message \<Rightarrow> rule \<Rightarrow> match_result \<Rightarrow> action list \<times> flow" where
  "on_match cfg env msg f m =
     then_do (delete_step env msg f) (then_do (schedule_step cfg msg f) (report_step cfg msg f m))"

text \<open>
  The loop of \<open>_filter_message\<close> over \<open>self.filters.items()\<close>.  A rule is evaluated when
  it is enabled and the double trigger check does not skip it; its matcher gets the
  content or the message.
\<close>

definition double_trigger :: "int option \<Rightarrow> rule \<Rightarrow> bool" where
  "double_trigger delta f =
     (rule_name f = ''watch_rich_embeds'' \<and> (case delta of None \<Rightarrow> False | Some d \<Rightarrow> d < 100))"

definition rule_evaluated :: "int option \<Rightarrow> rule \<Rightarrow> bool" where
  "rule_evaluated delta f = (enabled f \<and> \<not> double_trigger delta f)"

definition rule_arg :: "message \<Rightarrow> rule \<Rightarrow> arg" where
  "rule_arg msg f = (if content_only f then Content (content msg) else FullMessage msg)"

definition call_events :: "message \<Rightarrow> rule \<Rightarrow> event list" where
  "call_events msg f =
     MatcherCall (rule_name f) # map InviteLookup (fst (rule_function f (rule_arg msg f)))"

fun filter_loop ::
  "filter_config \<Rightarrow> env \<Rightarrow> message \<Rightarrow> int option \<Rightarrow> rule list \<Rightarrow> event list \<times> error option" where
  "filter_loop cfg env msg delta [] = ([], None)"
| "filter_loop cfg env msg delta (f # fs) =
     (if rule_evaluated delta f then
        (case snd (rule_function f (rule_arg msg f)) of
           Inl e \<Rightarrow> (call_events msg f, Some e)
         | Inr m \<Rightarrow>
             if truthy m then
               (call_events msg f @ map (RuleAction (rule_name f)) (fst (on_match cfg env msg f m)),
                case snd (on_match cfg env msg f m) of Raise e \<Rightarrow> Some e | _ \<Rightarrow> None)
             else
               (call_events msg f @ fst (filter_loop cfg env msg delta fs),
                snd (filter_loop cfg env msg delta fs)))
      else filter_loop cfg env msg delta fs)"

definition role_whitelisted :: "filter_config \<Rightarrow> message \<Rightarrow> bool" where
  "role_whitelisted cfg msg =
     (is_member (msg_author msg)
      \<and> list_ex (\<lambda>role. role \<in> set (role_whitelist cfg)) (role_ids (msg_author msg)))"

definition filter_message_allowed :: "filter_config \<Rightarrow> message \<Rightarrow> bool" where
  "filter_message_allowed cfg msg =
     (channel_id (msg_channel msg) \<notin> set (channel_whitelist cfg)
      \<and> \<not> role_whitelisted cfg msg
      \<and> \<not> is_bot (msg_author msg))"

definition filter_message ::
  "filter_config \<Rightarrow> env \<Rightarrow> rule list \<Rightarrow> message \<Rightarrow> int option \<Rightarrow> event list \<times> error option" where
  "filter_message cfg env fs msg delta =
     (if filter_message_allowed cfg msg then filter_loop cfg env msg delta fs else ([], None))"

text \<open>
  \<open>relativedelta(dt1, dt2).microseconds\<close>: with both dates given it is the microsecond
  field of the difference, which lies between 0 and 999999 whatever the whole seconds,
  days and months are; with a date missing every field is 0.
\<close>

definition relativedelta_microseconds :: "datetime option \<Rightarrow> datetime option \<Rightarrow> int" where
  "relativedelta_microseconds dt1 dt2 =
     (case (dt1, dt2) of
        (Some a, Some b) \<Rightarrow> (a - b) mod 1000000
      | _ \<Rightarrow> 0)"

definition on_message_edit ::
  "filter_config \<Rightarrow> env \<Rightarrow> rule list \<Rightarrow> message \<Rightarrow> message \<Rightarrow> event list \<times> error option" where
  "on_message_edit cfg env fs before after =
     (let delta =
            (if edited_at before = None then
               relativedelta_microseconds (edited_at after) (Some (created_at before))
             else relativedelta_microseconds (edited_at after) (edited_at before))
      in filter_message cfg env fs after (Some delta))"

text \<open>
  Reading a trace.  A rule is passed over when the loop goes on behind it: it is
  disabled, or skipped by the double trigger check, or its matcher returns a falsy
  value.  \<open>skipped_events\<close> is what such a rule leaves in the trace, \<open>rule_actions\<close> are
  the actions of a trace and \<open>matcher_calls\<close> the names of the rules whose matcher ran.
\<close>

definition passed_over :: "message \<Rightarrow> int option \<Rightarrow> rule \<Rightarrow> bool" where
  "passed_over msg delta g =
     (\<not> rule_evaluated delta g
      \<or> (case snd (rule_function g (rule_arg msg g)) of Inr m \<Rightarrow> \<not> truthy m | Inl e \<Rightarrow> False))"

definition skipped_events :: "message \<Rightarrow> int option \<Rightarrow> rule \<Rightarrow> event list" where
  "skipped_events msg delta g = (if rule_evaluated delta g then call_events msg g else [])"

fun is_rule_action :: "event \<Rightarrow> bool" where
  "is_rule_action (RuleAction n a) = True"
| "is_rule_action _ = False"

definition rule_actions :: "event list \<Rightarrow> event list" where
  "rule_actions evs = filter is_rule_action evs"

definition matcher_calls :: "event list \<Rightarrow> string list" where
  "matcher_calls evs = List.map_filter (\<lambda>e. case e of MatcherCall n \<Rightarrow> Some n | _ \<Rightarrow> None) evs"

section \<open>Clocks and the name \<open>datetime\<close>\<close>

text \<open>
  \<open>bot/utils/time.py\<close> binds the name \<open>datetime\<close> to the module (\<open>import datetime\<close>),
  \<open>bot/cogs/filtering.py\<close> binds it to the class (\<open>from datetime import datetime\<close>).
  The module has the attribute \<open>datetime\<close> and no \<open>utcnow\<close>; the class has \<open>utcnow\<close>
  and no attribute \<open>datetime\<close>.
\<close>

datatype py_object = Module_datetime | Class_datetime

definition time_py_datetime :: py_object where
  "time_py_datetime = Module_datetime"

definition filtering_py_datetime :: py_object where
  "filtering_py_datetime = Class_datetime"

fun attr_datetime :: "py_object \<Rightarrow> error + py_object" where
  "attr_datetime Module_datetime = Inr Class_datetime"
| "attr_datetime Class_datetime = Inl AttributeError"

fun call_utcnow :: "py_object \<Rightarrow> datetime \<Rightarrow> error + datetime" where
  "call_utcnow Class_datetime clock = Inr clock"
| "call_utcnow Module_datetime clock = Inl AttributeError"

definition bind_result :: "error + 'a \<Rightarrow> ('a \<Rightarrow> error + 'b) \<Rightarrow> error + 'b" where
  "bind_result r f = (case r of Inl e \<Rightarrow> Inl e | Inr v \<Rightarrow> f v)"

section \<open>The username check\<close>

text \<open>
  \<open>name_alerts\<close> maps a user id to the time stamp of the last alert, in microseconds.
  \<open>datetime.utcnow().timestamp()\<close> reads the naive UTC value as local time, so the time
  stamp written is behind it by the host's offset from UTC (\<open>utc_offset\<close>, 0 on a host
  that runs in UTC); \<open>datetime.utcfromtimestamp\<close> gives back the naive UTC value.
\<close>

definition DAYS_BETWEEN_ALERTS :: int where
  "DAYS_BETWEEN_ALERTS = 3"

definition timestamp :: "int \<Rightarrow> datetime \<Rightarrow> int" where
  "timestamp utc_offset naive = naive - utc_offset"

definition utcfromtimestamp :: "int \<Rightarrow> datetime" where
  "utcfromtimestamp ts = ts"

definition get_name_matches :: "pattern list \<Rightarrow> string \<Rightarrow> string list" where
  "get_name_matches patterns name =
     List.map_filter
       (\<lambda>pattern. case pattern name of
                     Some (i, j) \<Rightarrow> Some (take (j - i) (drop i name))
                   | None \<Rightarrow> None)
       patterns"

text \<open>
  \<open>check_send_alert\<close>: the walrus test is false for a missing key and for the time
  stamp 0.
\<close>

definition check_send_alert :: "(int \<rightharpoonup> int) \<Rightarrow> author \<Rightarrow> datetime \<Rightarrow> error + bool" where
  "check_send_alert name_alerts member clock =
     (case name_alerts (author_id member) of
        None \<Rightarrow> Inr True
      | Some ts \<Rightarrow>
          if ts = 0 then Inr True
          else
            (let last_alert = utcfromtimestamp ts
             in bind_result (call_utcnow filtering_py_datetime clock)
                  (\<lambda>now. if now - timedelta_days DAYS_BETWEEN_ALERTS < last_alert
                          then Inr False else Inr True)))"

text \<open>
  \<open>check_bad_words_in_name\<close>, run under \<open>name_lock\<close>, so as one step.  The clock is
  read at \<open>clock_check\<close> in \<open>check_send_alert\<close> and at \<open>clock_set\<close> after the alert
  is sent.
\<close>

definition check_bad_words_in_name ::
  "pattern list \<Rightarrow> int \<Rightarrow> author \<Rightarrow> datetime \<Rightarrow> datetime \<Rightarrow> (int \<rightharpoonup> int)
     \<Rightarrow> event list \<times> (int \<rightharpoonup> int) \<times> error option" where
  "check_bad_words_in_name patterns utc_offset member clock_check clock_set name_alerts =
     (let matches = get_name_matches patterns (display_name member) in
      if matches = [] then ([], name_alerts, None)
      else
        (case check_send_alert name_alerts member clock_check of
           Inl e \<Rightarrow> ([], name_alerts, Some e)
         | Inr send \<Rightarrow>
             if \<not> send then ([], name_alerts, None)
             else
               (case call_utcnow filtering_py_datetime clock_set of
                  Inl e \<Rightarrow> ([NameAlert (author_id member) (display_name member) matches], name_alerts, Some e)
                | Inr now \<Rightarrow>
                    ([NameAlert (author_id member) (display_name member) matches,
                      NameAlertsSet (author_id member) (timestamp utc_offset now)],
                     name_alerts(author_id member \<mapsto> timestamp utc_offset now),
                     None))))"

definition on_message ::
  "filter_config \<Rightarrow> env \<Rightarrow> rule list \<Rightarrow> pattern list \<Rightarrow> int \<Rightarrow> message \<Rightarrow> datetime \<Rightarrow> datetime
     \<Rightarrow> (int \<rightharpoonup> int) \<Rightarrow> event list \<times> (int \<rightharpoonup> int) \<times> error option" where
  "on_message cfg env fs patterns utc_offset msg clock_check clock_set name_alerts =
     (case snd (filter_message cfg env fs msg None) of
        Some e \<Rightarrow> (fst (filter_message cfg env fs msg None), name_alerts, Some e)
      | None \<Rightarrow>
          (let r = check_bad_words_in_name patterns utc_offset (msg_author msg)
                     clock_check clock_set name_alerts
           in (fst (filter_message cfg env fs msg None) @ fst r, snd r)))"

section \<open>Deferred deletion\<close>

text \<open>
  The world of the scheduler: the clock, the channels the bot can get, the messages
  that exist (channel and message id), the message ids whose fetch or delete fails with
  an \<open>HTTPException\<close> other than \<open>NotFound\<close>, the records the API holds, the tasks
  registered with \<open>schedule_task\<close>, and a journal of the calls made, each with the time
  of the call.
\<close>

datatype call = ApiGet | FetchMessage int int | MessageDelete int | ApiDelete int | TaskScheduled int

record world =
  clock :: datetime
  channels :: "int list"
  messages :: "(int \<times> int) list"
  transport_fails :: "int list"
  api_records :: "pending list"
  scheduled :: "(int \<times> pending) list"
  journal :: "(datetime \<times> call) list"

definition record_call :: "call \<Rightarrow> world \<Rightarrow> world" where
  "record_call c w = w\<lparr>journal := journal w @ [(clock w, c)]\<rparr>"

text \<open>
  \<open>asyncio.sleep(delay)\<close> returns once the delay has passed, \<open>late\<close> microseconds after
  that.  \<open>delay.total_seconds() > 1.0\<close> is \<open>delay > 1000000\<close> in microseconds.
\<close>

definition asyncio_sleep :: "nat \<Rightarrow> int \<Rightarrow> world \<Rightarrow> world" where
  "asyncio_sleep late delay w = w\<lparr>clock := clock w + delay + int late\<rparr>"

definition wait_until :: "nat \<Rightarrow> datetime \<Rightarrow> datetime option \<Rightarrow> world \<Rightarrow> error + world" where
  "wait_until late time start w =
     bind_result
       (case start of
          Some s \<Rightarrow> Inr s
        | None \<Rightarrow> bind_result (attr_datetime time_py_datetime) (\<lambda>cls. call_utcnow cls (clock w)))
       (\<lambda>t0. let delay = time - t0
             in if delay > 1000000 then Inr (asyncio_sleep late delay w) else Inr w)"

text \<open>
  \<open>delete_offensive_msg\<close>: both \<open>except\<close> clauses only log, and the record is deleted
  from the API in every case.
\<close>

definition delete_offensive_msg :: "pending \<Rightarrow> world \<Rightarrow> world" where
  "delete_offensive_msg msg w =
     (let w1 =
            (if pending_channel_id msg \<in> set (channels w) then
               (let w' = record_call (FetchMessage (pending_channel_id msg) (pending_id msg)) w in
                if pending_id msg \<in> set (transport_fails w) then w'
                else if (pending_channel_id msg, pending_id msg) \<notin> set (messages w) then w'
                else (record_call (MessageDelete (pending_id msg)) w')
                       \<lparr>messages := removeAll (pending_channel_id msg, pending_id msg) (messages w)\<rparr>)
             else w)
      in (record_call (ApiDelete (pending_id msg)) w1)
           \<lparr>api_records := filter (\<lambda>r. pending_id r \<noteq> pending_id msg) (api_records w1)\<rparr>)"

definition scheduled_task :: "nat \<Rightarrow> pending \<Rightarrow> world \<Rightarrow> error + world" where
  "scheduled_task late msg w =
     (let delete_at = delete_date msg
      in bind_result (wait_until late delete_at None w) (\<lambda>w'. Inr (delete_offensive_msg msg w')))"

text \<open>
  Modelled from the spec: \<open>Scheduler.schedule_task\<close> of \<open>bot/utils/scheduling.py\<close>, which
  is not part of the sources.  A task already registered for the id is replaced,
  otherwise a new one is registered.
\<close>

definition schedule_task :: "int \<Rightarrow> pending \<Rightarrow> world \<Rightarrow> world" where
  "schedule_task task_id data w =
     (record_call (TaskScheduled task_id) w)
       \<lparr>scheduled := (task_id, data) # filter (\<lambda>t. fst t \<noteq> task_id) (scheduled w)\<rparr>"

text \<open>
  \<open>reschedule_offensive_msg_deletion\<close>.  The loop of lines 486 to 492 takes \<open>now\<close> from
  line 484, which evaluates \<open>datetime.datetime.utcnow()\<close> in \<open>filtering.py\<close>.
\<close>

fun reschedule_loop :: "datetime \<Rightarrow> pending list \<Rightarrow> world \<Rightarrow> world" where
  "reschedule_loop now [] w = w"
| "reschedule_loop now (msg # response) w =
     (let delete_at = delete_date msg
      in reschedule_loop now response
           (if delete_at < now then delete_offensive_msg msg w
            else schedule_task (pending_id msg) msg w))"

definition reschedule_offensive_msg_deletion :: "world \<Rightarrow> world \<times> error option" where
  "reschedule_offensive_msg_deletion w =
     (let w1 = record_call ApiGet w;
          response = api_records w1
      in case bind_result (attr_datetime filtering_py_datetime) (\<lambda>cls. call_utcnow cls (clock w1)) of
           Inl e \<Rightarrow> (w1, Some e)
         | Inr now \<Rightarrow> (reschedule_loop now response w1, None))"

section \<open>Example inputs\<close>

text \<open>An invite endpoint that resolves every code to guild 5.\<close>

definition guild5_api :: "string \<Rightarrow> invite_response" where
  "guild5_api code =
     \<lparr>response_guild = Some \<lparr>guild_id = 5, guild_name = ''g'', guild_icon = None\<rparr>,
      approximate_member_count = 10, approximate_presence_count = 2\<rparr>"

text \<open>
  A message whose first rich embed carries a URL of the text and whose second rich
  embed has no URL.
\<close>

definition two_rich_embeds :: message where
  "two_rich_embeds =
     \<lparr>msg_id = 1,
      msg_author = \<lparr>author_id = 7, is_member = True, role_ids = [], is_bot = False, display_name = ''bob''\<rparr>,
      msg_channel = \<lparr>channel_id = 3, is_private = False\<rparr>,
      content = ''see http://a.b/c'',
      embeds = [\<lparr>embed_type = ''rich'', embed_url = Some ''http://a.b/c''\<rparr>,
                \<lparr>embed_type = ''rich'', embed_url = None\<rparr>],
      created_at = 0, edited_at = None\<rparr>"

text \<open>
  A pending deletion that is due half a second after the clock of \<open>early_world\<close>, and
  a world at start-up whose only record has been due for a quarter of an hour.
\<close>

definition early_pending :: pending where
  "early_pending = \<lparr>pending_id = 9, pending_channel_id = 3, delete_date = 1600000000500000\<rparr>"

definition early_world :: world where
  "early_world =
     \<lparr>clock = 1600000000000000, channels = [3], messages = [(3, 9)], transport_fails = [],
      api_records = [early_pending], scheduled = [(9, early_pending)], journal = []\<rparr>"

definition overdue_pending :: pending where
  "overdue_pending = \<lparr>pending_id = 9, pending_channel_id = 3, delete_date = 1600000000500000\<rparr>"

definition overdue_world :: world where
  "overdue_world =
     \<lparr>clock = 1600000900000000, channels = [3], messages = [(3, 9)], transport_fails = [],
      api_records = [overdue_pending], scheduled = [], journal = []\<rparr>"

text \<open>A watch list of one pattern, and a member whose display name it matches.\<close>

definition bad_name_patterns :: "pattern list" where
  "bad_name_patterns = [\<lambda>s. if starts_with ''bad'' s then Some (0, 3) else None]"

definition bad_member :: author where
  "bad_member = \<lparr>author_id = 7, is_member = True, role_ids = [], is_bot = False, display_name = ''badger''\<rparr>"

text \<open>
  A configuration with every rule enabled, the matchers and patterns from outside the
  sources set to match nothing, and a guild whitelist without guild 5.  \<open>gone_env\<close> is
  a world in which the message is already deleted.
\<close>

definition example_config :: filter_config where
  "example_config =
     \<lparr>filter_zalgo = True, filter_invites = True, filter_domains = True, watch_regex = True,
      watch_rich_embeds = True, watch_words = True, watch_tokens = True,
      notify_user_zalgo = True, notify_user_invites = True, notify_user_domains = True,
      offensive_msg_delete_days = 7, ping_everyone = False,
      channel_whitelist = [100], role_whitelist = [200], guild_invite_whitelist = [6],
      domain_blacklist = [''evil.test'']\<rparr>"

definition example_externals :: externals where
  "example_externals =
     \<lparr>ZALGO_RE_search = (\<lambda>t. False), WATCHLIST_PATTERNS = [],
      has_watchlist_words = (\<lambda>t. NoMatch), has_watchlist_tokens = (\<lambda>t. NoMatch)\<rparr>"

definition example_env :: env where
  "example_env = \<lparr>invite_api = guild5_api, delete_outcome = Deleted, dm_forbidden = False\<rparr>"

definition example_filters :: "env \<Rightarrow> rule list" where
  "example_filters env = filters example_config example_externals env"

definition bob :: author where
  "bob = \<lparr>author_id = 7, is_member = True, role_ids = [], is_bot = False, display_name = ''bob''\<rparr>"

text \<open>
  A message with an invite link and a blacklisted URL; a message without embeds, the
  same message with a rich embed added, and that message as the state after an edit five
  seconds and 50 microseconds after its creation.
\<close>

definition invite_and_domain :: message where
  "invite_and_domain =
     \<lparr>msg_id = 1, msg_author = bob, msg_channel = \<lparr>channel_id = 3, is_private = False\<rparr>,
      content = ''join discord.gg/abc http://evil.test/x'', embeds = [],
      created_at = 1600000000000000, edited_at = None\<rparr>"

definition rich_before :: message where
  "rich_before =
     \<lparr>msg_id = 2, msg_author = bob, msg_channel = \<lparr>channel_id = 3, is_private = False\<rparr>,
      content = ''hello'', embeds = [],
      created_at = 1600000000000000, edited_at = None\<rparr>"

definition rich_new :: message where
  "rich_new = rich_before\<lparr>embeds := [\<lparr>embed_type = ''rich'', embed_url = None\<rparr>]\<rparr>"

definition rich_after :: message where
  "rich_after = rich_new\<lparr>edited_at := Some 1600000005000050\<rparr>"

definition gone_env :: env where
  "gone_env = example_env\<lparr>delete_outcome := NotFound\<rparr>"

text \<open>The message with the invite link, written by the member with the watched name.\<close>

definition badger_invite :: message where
  "badger_invite = invite_and_domain\<lparr>msg_author := bad_member\<rparr>"

text \<open>The invite data and the notification of the invite rule for that message.\<close>

definition abc_info :: "(string \<times> invite_info) list" where
  "abc_info =
     [(''abc'', \<lparr>info_name = ''g'',
                info_icon = ''https://cdn.discordapp.com/icons/5/None.png?size=512'',
                info_members = 10, info_active = 2\<rparr>)]"

definition invites_notification :: string where
  "invites_notification =
     ''Per Rule 6, your invite link has been removed. '' @ staff_mistake_str @ [CHR 0x0A, CHR 0x0A]
       @ ''Our server rules can be found here: <https://pythondiscord.com/pages/rules>''"

section \<open>Properties\<close>

lemma concat_SPOILER_RE_split_from:
  "concat (SPOILER_RE_split_from acc s) = acc @ s"
proof (induction acc s rule: SPOILER_RE_split_from.induct)
  case (1 acc)
  show ?case by simp
next
  case (2 acc c cs)
  show ?case
  proof (cases "SPOILER_RE_match (c # cs)")
    case None
    with "2.IH" show ?thesis by simp
  next
    case (Some p)
    obtain m rest where p: "p = (m, rest)" by (cases p)
    from Some p have "m @ rest = c # cs" by (simp add: SPOILER_RE_match_append)
    with "2.IH" Some p show ?thesis by simp
  qed
qed


lemma concat_SPOILER_RE_split: "concat (SPOILER_RE_split text) = text"
  by (simp add: SPOILER_RE_split_def concat_SPOILER_RE_split_from)

section \<open>Spoiler expansion\<close>

lemma find_bars_Some: "find_bars r = Some k \<Longrightarrow> take 2 (drop k r) = ''||''"
proof (induction r arbitrary: k rule: find_bars.induct)
  case (1 a b r)
  then show ?case by (auto split: if_splits)
qed simp_all

lemma SPOILER_RE_match_bars:
  assumes "SPOILER_RE_match s = Some (m, rest)"
  shows "take 2 m = ''||'' \<and> drop (length m - 2) m = ''||'' \<and> 5 \<le> length m"
proof -
  from assms obtain c r k where s: "s = CHR ''|'' # CHR ''|'' # c # r" and k: "find_bars r = Some k"
    and m: "m = take (k + 5) s"
    by (auto simp: SPOILER_RE_match_def split: list.splits if_splits option.splits)
  from find_bars_Some [OF k] have tk: "take 2 (drop k r) = ''||''" .
  then have "length (take 2 (drop k r)) = length ''||''" by simp
  then have len: "k + 2 \<le> length r" by simp
  from s m len have lm: "length m = k + 5" by simp
  from s len have ls: "min (length s) (k + 5) = k + 5" by simp
  have "drop (length m - 2) m = take 2 (drop (k + 3) s)"
    unfolding m by (simp add: drop_take ls add.commute)
  also have "\<dots> = take 2 (drop k r)" by (simp add: s numeral_3_eq_3)
  finally have "drop (length m - 2) m = ''||''" using tk by simp
  moreover have "take 2 m = ''||''" by (simp add: m s)
  ultimately show ?thesis using lm by simp
qed

lemma slice_odd_split_from:
  "seg \<in> set (slice_odd (SPOILER_RE_split_from acc s)) \<Longrightarrow>
   take 2 seg = ''||'' \<and> drop (length seg - 2) seg = ''||'' \<and> 5 \<le> length seg"
proof (induction acc s rule: SPOILER_RE_split_from.induct)
  case (1 acc)
  then show ?case by simp
next
  case (2 acc c cs)
  show ?case
  proof (cases "SPOILER_RE_match (c # cs)")
    case None
    with 2 show ?thesis by simp
  next
    case (Some p)
    obtain m rest where p: "p = (m, rest)" by (cases p)
    with Some 2 SPOILER_RE_match_bars [of "c # cs" m rest] show ?thesis by auto
  qed
qed


text \<open>
  Claim C9, first part as stated and second part as amended.  For every text,
  \<open>expand_spoilers\<close> returns the even-indexed segments of the split, then the odd-indexed
  ones, then the whole split joined, which is the text itself.  The odd-indexed segments
  are the spoiler matches with their bars: each begins and ends with \<open>||\<close>.  So
  \<open>expand_spoilers("a||b||c")\<close> is \<open>"ac||b||a||b||c"\<close>, whose only odd-indexed segment
  is \<open>"||b||"\<close>.
\<close>

theorem expand_spoilers_segments:
  "expand_spoilers text =
     concat (slice_even (SPOILER_RE_split text)) @ concat (slice_odd (SPOILER_RE_split text)) @ text
   \<and> (\<forall>seg \<in> set (slice_odd (SPOILER_RE_split text)).
         take 2 seg = ''||'' \<and> drop (length seg - 2) seg = ''||'' \<and> 5 \<le> length seg)
   \<and> expand_spoilers ''a||b||c'' = ''ac||b||a||b||c''
   \<and> slice_odd (SPOILER_RE_split ''a||b||c'') = [''||b||'']"
proof (intro conjI ballI)
  show "expand_spoilers text =
     concat (slice_even (SPOILER_RE_split text)) @ concat (slice_odd (SPOILER_RE_split text)) @ text"
    by (simp add: expand_spoilers_def Let_def concat_SPOILER_RE_split)
  show "expand_spoilers ''a||b||c'' = ''ac||b||a||b||c''"
    by (simp add: expand_spoilers_def SPOILER_RE_split_def SPOILER_RE_match_def)
  show "slice_odd (SPOILER_RE_split ''a||b||c'') = [''||b||'']"
    by (simp add: SPOILER_RE_split_def SPOILER_RE_match_def)
next
  fix seg
  assume "seg \<in> set (slice_odd (SPOILER_RE_split text))"
  then have seg: "take 2 seg = ''||'' \<and> drop (length seg - 2) seg = ''||'' \<and> 5 \<le> length seg"
    unfolding SPOILER_RE_split_def by (rule slice_odd_split_from)
  from seg show "take 2 seg = ''||''" by simp
  from seg show "drop (length seg - 2) seg = ''||''" by simp
  from seg show "5 \<le> length seg" by simp
qed

theorem expand_spoilers_segments_witness:
  "expand_spoilers ''x||y||'' = ''x'' @ ''||y||'' @ ''x||y||''
   \<and> slice_odd (SPOILER_RE_split ''x||y||'') = [''||y||'']
   \<and> take 2 ''||y||'' = ''||'' \<and> drop (length ''||y||'' - 2) ''||y||'' = ''||''"
proof -
  have odd: "slice_odd (SPOILER_RE_split ''x||y||'') = [''||y||'']"
    by (simp add: SPOILER_RE_split_def SPOILER_RE_match_def)
  from expand_spoilers_segments [of "''x||y||''"]
  have "expand_spoilers ''x||y||'' = ''x'' @ ''||y||'' @ ''x||y||''"
    and "\<forall>seg \<in> set (slice_odd (SPOILER_RE_split ''x||y||'')).
           take 2 seg = ''||'' \<and> drop (length seg - 2) seg = ''||'' \<and> 5 \<le> length seg"
    by (simp_all add: SPOILER_RE_split_def SPOILER_RE_match_def)
  with odd show ?thesis by simp
qed

text \<open>
  Claim C9 as stated fails in its second part: in \<open>expand_spoilers("a||b||c")\<close> the
  letter \<open>b\<close> does not occur outside the spoiler matches of the result.
\<close>

theorem expand_spoilers_b_counterexample:
  "expand_spoilers ''a||b||c'' = ''ac||b||a||b||c''
   \<and> outside_spoilers (expand_spoilers ''a||b||c'') = [''ac'', ''a'', ''c'']
   \<and> \<not> (CHR ''b'' \<in> set (concat (outside_spoilers (expand_spoilers ''a||b||c''))))"
  by (simp add: outside_spoilers_def expand_spoilers_def SPOILER_RE_split_def
      SPOILER_RE_match_def)

section \<open>The invite scanner\<close>

lemma invites_loop_lookups_once:
  assumes "not_whitelisted api whitelist c"
  shows "count_list (fst (invites_loop api whitelist invites d)) c
           \<le> (if c \<in> fst ` set d then 0 else 1)"
  using assms
proof (induction invites arbitrary: d)
  case Nil
  show ?case by simp
next
  case (Cons i invites)
  show ?case
  proof (cases "i \<in> fst ` set d")
    case True
    with Cons show ?thesis by simp
  next
    case False
    show ?thesis
    proof (cases "response_guild (api i)")
      case None
      with False show ?thesis by auto
    next
      case (Some g)
      show ?thesis
      proof (cases "guild_id g \<in> set whitelist")
        case True
        with Cons.prems Some have "i \<noteq> c" by (auto simp: not_whitelisted_def)
        with Cons.IH [OF Cons.prems, of d] False Some True show ?thesis
          by (simp add: Let_def split_beta)
      next
        case nw: False
        let ?d' = "d @ [(i, \<lparr>info_name = guild_name g, info_icon = guild_icon_url g,
                            info_members = approximate_member_count (api i),
                            info_active = approximate_presence_count (api i)\<rparr>)]"
        from Cons.IH [OF Cons.prems, of ?d'] False Some nw show ?thesis
          by (auto simp add: Let_def split_beta split: if_splits)
      qed
    qed
  qed
qed

lemma invites_loop_whitelisted_all:
  assumes "\<forall>c \<in> set invites. \<not> not_whitelisted api whitelist c"
  shows "fst (invites_loop api whitelist invites []) = invites"
  using assms
  by (induction invites) (auto simp: Let_def split_beta not_whitelisted_def split: option.splits)

lemma findall_twice: "INVITE_RE_findall ''discord.gg/abc discord.gg/abc'' = [''abc'', ''abc'']"
  by code_simp

text \<open>
  Claim C5, amended.  A code whose lookup has no guild, or a guild outside the
  whitelist, is sent to the invite endpoint at most once for a text, however often it
  occurs.  A code whose guild is whitelisted is not remembered: when every code found
  is of that kind, each occurrence is looked up.
\<close>

theorem has_invites_lookups:
  "(not_whitelisted api whitelist c \<longrightarrow> count_list (fst (has_invites api whitelist text)) c \<le> 1)
   \<and> ((\<forall>c \<in> set (INVITE_RE_findall (filter (\<lambda>c. c \<noteq> CHR 0x5C) text)). \<not> not_whitelisted api whitelist c)
        \<longrightarrow> fst (has_invites api whitelist text) = INVITE_RE_findall (filter (\<lambda>c. c \<noteq> CHR 0x5C) text))"
proof (intro conjI impI)
  assume "not_whitelisted api whitelist c"
  from invites_loop_lookups_once [OF this, of _ "[]"]
  show "count_list (fst (has_invites api whitelist text)) c \<le> 1"
    by (simp add: has_invites_def Let_def)
next
  assume "\<forall>c \<in> set (INVITE_RE_findall (filter (\<lambda>c. c \<noteq> CHR 0x5C) text)). \<not> not_whitelisted api whitelist c"
  then show "fst (has_invites api whitelist text) = INVITE_RE_findall (filter (\<lambda>c. c \<noteq> CHR 0x5C) text)"
    by (simp add: has_invites_def Let_def invites_loop_whitelisted_all)
qed

theorem has_invites_lookups_witness:
  "not_whitelisted guild5_api [6] ''abc''
   \<and> fst (has_invites guild5_api [6] ''discord.gg/abc discord.gg/abc'') = [''abc'']
   \<and> count_list (fst (has_invites guild5_api [6] ''discord.gg/abc discord.gg/abc'')) ''abc'' \<le> 1
   \<and> \<not> not_whitelisted guild5_api [5] ''abc''
   \<and> fst (has_invites guild5_api [5] ''discord.gg/abc discord.gg/abc'') = [''abc'', ''abc'']"
proof -
  have nw: "not_whitelisted guild5_api [6] ''abc''"
    by (simp add: not_whitelisted_def guild5_api_def)
  have w: "\<not> not_whitelisted guild5_api [5] ''abc''"
    by (simp add: not_whitelisted_def guild5_api_def)
  have f: "filter (\<lambda>c. c \<noteq> CHR 0x5C) ''discord.gg/abc discord.gg/abc'' = ''discord.gg/abc discord.gg/abc''"
    by simp
  have one: "fst (has_invites guild5_api [6] ''discord.gg/abc discord.gg/abc'') = [''abc'']"
    unfolding has_invites_def Let_def f findall_twice
    by (simp add: guild5_api_def)
  from has_invites_lookups [of guild5_api "[6]" "''abc''" "''discord.gg/abc discord.gg/abc''"] nw
  have c1: "count_list (fst (has_invites guild5_api [6] ''discord.gg/abc discord.gg/abc'')) ''abc'' \<le> 1"
    by blast
  from has_invites_lookups [of guild5_api "[5]" "''abc''" "''discord.gg/abc discord.gg/abc''"] w
  have all: "fst (has_invites guild5_api [5] ''discord.gg/abc discord.gg/abc'') = [''abc'', ''abc'']"
    unfolding f findall_twice by simp
  from nw one c1 w all show ?thesis by blast
qed

text \<open>
  Claim C5 as stated fails: with the guild of \<open>abc\<close> whitelisted, the two occurrences
  of the code make two lookups.
\<close>

theorem has_invites_twice_counterexample:
  "\<not> (\<forall>c. count_list (fst (has_invites guild5_api [5] ''discord.gg/abc discord.gg/abc'')) c \<le> 1)"
proof -
  have f: "filter (\<lambda>c. c \<noteq> CHR 0x5C) ''discord.gg/abc discord.gg/abc'' = ''discord.gg/abc discord.gg/abc''"
    by simp
  have "fst (has_invites guild5_api [5] ''discord.gg/abc discord.gg/abc'') = [''abc'', ''abc'']"
    unfolding has_invites_def Let_def f findall_twice
    by (simp add: guild5_api_def)
  then have "count_list (fst (has_invites guild5_api [5] ''discord.gg/abc discord.gg/abc'')) ''abc'' = 2"
    by simp
  then show ?thesis by (metis numeral_le_one_iff semiring_norm(69))
qed

section \<open>The rich embed matcher\<close>

lemma url1: "URL_RE_findall ''see http://a.b/c'' = [''http://a.b/c'']"
  by code_simp

lemma has_rich_embed_sound: "has_rich_embed msg \<Longrightarrow> any_rich_embed_not_from_url msg"
proof -
  have "rich_embed_loop t es \<Longrightarrow> list_ex (rich_embed_not_from_url t) es" for t es
    by (induction es) (auto simp: rich_embed_not_from_url_def Let_def split: if_splits option.splits)
  then show "has_rich_embed msg \<Longrightarrow> any_rich_embed_not_from_url msg"
    by (auto simp: has_rich_embed_def any_rich_embed_not_from_url_def split: if_splits)
qed


text \<open>
  Claim C6 at the failing input: the first rich embed of \<open>two_rich_embeds\<close> repeats a URL
  of the text, the second has none.  \<open>_has_rich_embed\<close> returns \<open>False\<close> at the first,
  while some rich embed of the message is not generated from a URL.
\<close>

theorem has_rich_embed_stops_at_first_rich:
  "has_rich_embed two_rich_embeds = False \<and> any_rich_embed_not_from_url two_rich_embeds = True"
  by (simp add: has_rich_embed_def any_rich_embed_not_from_url_def rich_embed_not_from_url_def
      two_rich_embeds_def url1)

section \<open>The deferred deletion\<close>

lemma wait_until_None:
  "wait_until late time None w =
     Inr (if time - clock w > 1000000 then asyncio_sleep late (time - clock w) w else w)"
  by (simp add: wait_until_def bind_result_def time_py_datetime_def Let_def)

lemma delete_offensive_msg_calls:
  "\<exists>calls. journal (delete_offensive_msg msg w) = journal w @ map (Pair (clock w)) calls
           \<and> ApiDelete (pending_id msg) \<in> set calls
           \<and> (pending_channel_id msg \<in> set (channels w)
                \<and> pending_id msg \<notin> set (transport_fails w)
                \<and> (pending_channel_id msg, pending_id msg) \<in> set (messages w) \<longrightarrow>
                  MessageDelete (pending_id msg) \<in> set calls
                  \<and> (pending_channel_id msg, pending_id msg) \<notin> set (messages (delete_offensive_msg msg w)))"
proof (cases "pending_channel_id msg \<in> set (channels w)")
  case False
  then have "journal (delete_offensive_msg msg w) = journal w @ map (Pair (clock w)) [ApiDelete (pending_id msg)]"
    by (simp add: delete_offensive_msg_def record_call_def Let_def)
  with False show ?thesis by (intro exI [of _ "[ApiDelete (pending_id msg)]"]) simp
next
  case c: True
  show ?thesis
  proof (cases "pending_id msg \<in> set (transport_fails w) \<or> (pending_channel_id msg, pending_id msg) \<notin> set (messages w)")
    case True
    with c have "journal (delete_offensive_msg msg w) =
        journal w @ map (Pair (clock w)) [FetchMessage (pending_channel_id msg) (pending_id msg), ApiDelete (pending_id msg)]"
      by (auto simp add: delete_offensive_msg_def record_call_def Let_def)
    with True show ?thesis
      by (intro exI [of _ "[FetchMessage (pending_channel_id msg) (pending_id msg), ApiDelete (pending_id msg)]"]) auto
  next
    case False
    with c have "journal (delete_offensive_msg msg w) =
        journal w @ map (Pair (clock w)) [FetchMessage (pending_channel_id msg) (pending_id msg),
          MessageDelete (pending_id msg), ApiDelete (pending_id msg)]"
      and "(pending_channel_id msg, pending_id msg) \<notin> set (messages (delete_offensive_msg msg w))"
      by (auto simp add: delete_offensive_msg_def record_call_def Let_def)
    then show ?thesis
      by (intro exI [of _ "[FetchMessage (pending_channel_id msg) (pending_id msg),
          MessageDelete (pending_id msg), ApiDelete (pending_id msg)]"]) simp
  qed
qed

lemma clock_delete_offensive_msg: "clock (delete_offensive_msg msg w) = clock w"
  by (simp add: delete_offensive_msg_def record_call_def Let_def)

text \<open>
  Claim C2, amended.  When the record is due more than one second after the clock,
  \<open>_scheduled_task\<close> sleeps and every call of the deletion is made at the due time or
  later.  When it is due within a second (or overdue), \<open>wait_until\<close> does not sleep,
  and the calls are made at once, at the time the task runs.  In both cases the record
  is deleted from the API, and the message itself is deleted and gone afterwards when
  its channel is known, the message exists and the transport does not fail.
\<close>

theorem scheduled_task_waits:
  "(delete_date msg - clock w > 1000000 \<longrightarrow>
      (\<exists>w' calls. scheduled_task late msg w = Inr w'
         \<and> clock w' = delete_date msg + int late
         \<and> journal w' = journal w @ map (Pair (clock w')) calls
         \<and> ApiDelete (pending_id msg) \<in> set calls
         \<and> (pending_channel_id msg \<in> set (channels w)
              \<and> pending_id msg \<notin> set (transport_fails w)
              \<and> (pending_channel_id msg, pending_id msg) \<in> set (messages w) \<longrightarrow>
                MessageDelete (pending_id msg) \<in> set calls
                \<and> (pending_channel_id msg, pending_id msg) \<notin> set (messages w'))))
   \<and> (delete_date msg - clock w \<le> 1000000 \<longrightarrow>
      (\<exists>w' calls. scheduled_task late msg w = Inr w'
         \<and> clock w' = clock w
         \<and> journal w' = journal w @ map (Pair (clock w)) calls
         \<and> ApiDelete (pending_id msg) \<in> set calls
         \<and> (pending_channel_id msg \<in> set (channels w)
              \<and> pending_id msg \<notin> set (transport_fails w)
              \<and> (pending_channel_id msg, pending_id msg) \<in> set (messages w) \<longrightarrow>
                MessageDelete (pending_id msg) \<in> set calls
                \<and> (pending_channel_id msg, pending_id msg) \<notin> set (messages w'))))"
proof (intro conjI impI)
  assume far: "delete_date msg - clock w > 1000000"
  let ?w1 = "asyncio_sleep late (delete_date msg - clock w) w"
  have c1: "clock ?w1 = delete_date msg + int late" and j1: "journal ?w1 = journal w"
    and s1: "channels ?w1 = channels w" "transport_fails ?w1 = transport_fails w" "messages ?w1 = messages w"
    by (simp_all add: asyncio_sleep_def)
  from far have st: "scheduled_task late msg w = Inr (delete_offensive_msg msg ?w1)"
    by (simp add: scheduled_task_def wait_until_None bind_result_def)
  from delete_offensive_msg_calls [of msg ?w1]
  show "\<exists>w' calls. scheduled_task late msg w = Inr w'
         \<and> clock w' = delete_date msg + int late
         \<and> journal w' = journal w @ map (Pair (clock w')) calls
         \<and> ApiDelete (pending_id msg) \<in> set calls
         \<and> (pending_channel_id msg \<in> set (channels w)
              \<and> pending_id msg \<notin> set (transport_fails w)
              \<and> (pending_channel_id msg, pending_id msg) \<in> set (messages w) \<longrightarrow>
                MessageDelete (pending_id msg) \<in> set calls
                \<and> (pending_channel_id msg, pending_id msg) \<notin> set (messages w'))"
    unfolding st c1 j1 s1 by (auto simp add: clock_delete_offensive_msg c1)
next
  assume near: "delete_date msg - clock w \<le> 1000000"
  then have st: "scheduled_task late msg w = Inr (delete_offensive_msg msg w)"
    by (simp add: scheduled_task_def wait_until_None bind_result_def)
  from delete_offensive_msg_calls [of msg w]
  show "\<exists>w' calls. scheduled_task late msg w = Inr w'
         \<and> clock w' = clock w
         \<and> journal w' = journal w @ map (Pair (clock w)) calls
         \<and> ApiDelete (pending_id msg) \<in> set calls
         \<and> (pending_channel_id msg \<in> set (channels w)
              \<and> pending_id msg \<notin> set (transport_fails w)
              \<and> (pending_channel_id msg, pending_id msg) \<in> set (messages w) \<longrightarrow>
                MessageDelete (pending_id msg) \<in> set calls
                \<and> (pending_channel_id msg, pending_id msg) \<notin> set (messages w'))"
    unfolding st by (auto simp add: clock_delete_offensive_msg)
qed

theorem scheduled_task_waits_witness:
  "delete_date early_pending - clock (early_world\<lparr>clock := 1599999990000000\<rparr>) > 1000000
   \<and> (\<exists>w' calls. scheduled_task 7 early_pending (early_world\<lparr>clock := 1599999990000000\<rparr>) = Inr w'
         \<and> clock w' = 1600000000500007
         \<and> journal w' = map (Pair 1600000000500007) calls
         \<and> ApiDelete 9 \<in> set calls
         \<and> MessageDelete 9 \<in> set calls
         \<and> (3, 9) \<notin> set (messages w'))
   \<and> delete_date early_pending - clock early_world \<le> 1000000
   \<and> (\<exists>w' calls. scheduled_task 7 early_pending early_world = Inr w'
         \<and> clock w' = 1600000000000000
         \<and> journal w' = map (Pair 1600000000000000) calls
         \<and> ApiDelete 9 \<in> set calls
         \<and> MessageDelete 9 \<in> set calls
         \<and> (3, 9) \<notin> set (messages w'))"
proof -
  have far: "delete_date early_pending - clock (early_world\<lparr>clock := 1599999990000000\<rparr>) > 1000000"
    by (simp add: early_pending_def)
  have near: "delete_date early_pending - clock early_world \<le> 1000000"
    by (simp add: early_pending_def early_world_def)
  from scheduled_task_waits [of early_pending "early_world\<lparr>clock := 1599999990000000\<rparr>" 7] far
  have a: "\<exists>w' calls. scheduled_task 7 early_pending (early_world\<lparr>clock := 1599999990000000\<rparr>) = Inr w'
         \<and> clock w' = 1600000000500007
         \<and> journal w' = map (Pair 1600000000500007) calls
         \<and> ApiDelete 9 \<in> set calls
         \<and> MessageDelete 9 \<in> set calls
         \<and> (3, 9) \<notin> set (messages w')"
    by (fastforce simp add: early_pending_def early_world_def)
  from scheduled_task_waits [of early_pending early_world 7] near
  have b: "\<exists>w' calls. scheduled_task 7 early_pending early_world = Inr w'
         \<and> clock w' = 1600000000000000
         \<and> journal w' = map (Pair 1600000000000000) calls
         \<and> ApiDelete 9 \<in> set calls
         \<and> MessageDelete 9 \<in> set calls
         \<and> (3, 9) \<notin> set (messages w')"
    by (fastforce simp add: early_pending_def early_world_def)
  from far a near b show ?thesis by blast
qed

lemma early_run:
  "scheduled_task 0 early_pending early_world =
     Inr (early_world\<lparr>messages := [], api_records := [],
            journal := [(1600000000000000, FetchMessage 3 9), (1600000000000000, MessageDelete 9),
               (1600000000000000, ApiDelete 9)]\<rparr>)"
  by (simp add: scheduled_task_def wait_until_None bind_result_def delete_offensive_msg_def
      record_call_def early_world_def early_pending_def Let_def)

text \<open>
  Claim C2 as stated fails: a record due half a second ahead is deleted at once, before
  its due time.
\<close>

theorem scheduled_task_early_counterexample:
  "clock early_world < delete_date early_pending
   \<and> scheduled_task 0 early_pending early_world =
       Inr (early_world\<lparr>messages := [], api_records := [],
              journal := [(1600000000000000, FetchMessage 3 9), (1600000000000000, MessageDelete 9),
               (1600000000000000, ApiDelete 9)]\<rparr>)
   \<and> \<not> (\<forall>w'. scheduled_task 0 early_pending early_world = Inr w' \<longrightarrow>
           (\<forall>t c. (t, c) \<in> set (journal w') \<longrightarrow> delete_date early_pending \<le> t))"
proof (intro conjI)
  show "clock early_world < delete_date early_pending"
    by (simp add: early_world_def early_pending_def)
  show "scheduled_task 0 early_pending early_world =
       Inr (early_world\<lparr>messages := [], api_records := [],
              journal := [(1600000000000000, FetchMessage 3 9), (1600000000000000, MessageDelete 9),
               (1600000000000000, ApiDelete 9)]\<rparr>)"
    by (rule early_run)
  show "\<not> (\<forall>w'. scheduled_task 0 early_pending early_world = Inr w' \<longrightarrow>
           (\<forall>t c. (t, c) \<in> set (journal w') \<longrightarrow> delete_date early_pending \<le> t))"
  proof
    assume "\<forall>w'. scheduled_task 0 early_pending early_world = Inr w' \<longrightarrow>
           (\<forall>t c. (t, c) \<in> set (journal w') \<longrightarrow> delete_date early_pending \<le> t)"
    with early_run have "delete_date early_pending \<le> 1600000000000000"
      by (auto simp: early_world_def)
    then show False by (simp add: early_pending_def)
  qed
qed

text \<open>What the loop does once it has a value for now.\<close>

lemma reschedule_loop_overdue:
  "reschedule_loop (clock overdue_world) (api_records overdue_world) overdue_world =
     overdue_world\<lparr>messages := [], api_records := [],
       journal := [(1600000900000000, FetchMessage 3 9), (1600000900000000, MessageDelete 9),
        (1600000900000000, ApiDelete 9)]\<rparr>"
  by (simp add: delete_offensive_msg_def record_call_def overdue_world_def overdue_pending_def Let_def)


text \<open>
  Claim C3 at the failing input, and for every world: \<open>datetime.datetime\<close> in
  \<open>filtering.py\<close> is an attribute of the class, so line 484 raises once the records are
  fetched.  The overdue message of \<open>overdue_world\<close> and its record stay.
\<close>

theorem reschedule_raises_AttributeError:
  "reschedule_offensive_msg_deletion w = (record_call ApiGet w, Some AttributeError)
   \<and> messages (fst (reschedule_offensive_msg_deletion overdue_world)) = [(3, 9)]
   \<and> api_records (fst (reschedule_offensive_msg_deletion overdue_world)) = [overdue_pending]
   \<and> delete_date overdue_pending < clock overdue_world"
  by (simp add: reschedule_offensive_msg_deletion_def filtering_py_datetime_def bind_result_def
      record_call_def overdue_world_def overdue_pending_def Let_def)

section \<open>The username check\<close>

lemma check_send_alert_recent:
  assumes "alerts (author_id member) = Some ts" and "ts \<noteq> 0"
    and "now - timedelta_days DAYS_BETWEEN_ALERTS < ts"
  shows "check_send_alert alerts member now = Inr False"
  using assms
  by (simp add: check_send_alert_def bind_result_def filtering_py_datetime_def utcfromtimestamp_def)

lemma bad_matches: "get_name_matches bad_name_patterns (display_name bad_member) = [''bad'']"
  by (simp add: get_name_matches_def bad_name_patterns_def bad_member_def List.map_filter_simps)

text \<open>
  What holds of the cooldown.  The display name matches, the first check is not held
  back by an earlier alert, so it sends one alert and writes one time stamp; a second
  check less than three days after that write sends nothing and writes nothing,
  provided the host's local time is not ahead of UTC and its clock is past the epoch:
  the stamp read back is then neither 0 nor earlier than the write.
\<close>

lemma name_alert_cooldown:
  assumes matches: "get_name_matches patterns (display_name member) \<noteq> []"
    and host: "utc_offset \<le> 0"
    and epoch: "0 < set1"
    and first: "check_send_alert alerts member check1 = Inr True"
    and window: "check2 - set1 < timedelta_days DAYS_BETWEEN_ALERTS"
  shows "check_bad_words_in_name patterns utc_offset member check1 set1 alerts =
           ([NameAlert (author_id member) (display_name member)
               (get_name_matches patterns (display_name member)),
             NameAlertsSet (author_id member) (timestamp utc_offset set1)],
            alerts(author_id member \<mapsto> timestamp utc_offset set1), None)
       \<and> check_bad_words_in_name patterns utc_offset member check2 set2
            (alerts(author_id member \<mapsto> timestamp utc_offset set1)) =
           ([], alerts(author_id member \<mapsto> timestamp utc_offset set1), None)"
proof
  from matches first
  show "check_bad_words_in_name patterns utc_offset member check1 set1 alerts =
           ([NameAlert (author_id member) (display_name member)
               (get_name_matches patterns (display_name member)),
             NameAlertsSet (author_id member) (timestamp utc_offset set1)],
            alerts(author_id member \<mapsto> timestamp utc_offset set1), None)"
    by (simp add: check_bad_words_in_name_def Let_def filtering_py_datetime_def)
next
  let ?alerts' = "alerts(author_id member \<mapsto> timestamp utc_offset set1)"
  from host epoch have ts: "timestamp utc_offset set1 \<noteq> 0" "set1 \<le> timestamp utc_offset set1"
    by (simp_all add: timestamp_def)
  with window have "check2 - timedelta_days DAYS_BETWEEN_ALERTS < timestamp utc_offset set1"
    by simp
  with ts have "check_send_alert ?alerts' member check2 = Inr False"
    by (intro check_send_alert_recent [where ts = "timestamp utc_offset set1"]) simp_all
  with matches
  show "check_bad_words_in_name patterns utc_offset member check2 set2 ?alerts' = ([], ?alerts', None)"
    by (simp add: check_bad_words_in_name_def Let_def)
qed

lemma name_alert_cooldown_utc_example:
  "get_name_matches bad_name_patterns (display_name bad_member) = [''bad'']
   \<and> check_send_alert Map.empty bad_member 1600000000000000 = Inr True
   \<and> fst (check_bad_words_in_name bad_name_patterns 0 bad_member 1600000000000000 1600000000500000 Map.empty)
       = [NameAlert 7 ''badger'' [''bad''], NameAlertsSet 7 1600000000500000]
   \<and> fst (check_bad_words_in_name bad_name_patterns 0 bad_member 1600250000000000 1600250000500000
            (Map.empty(7 \<mapsto> 1600000000500000))) = []"
proof -
  have bm: "author_id bad_member = 7" "display_name bad_member = ''badger''"
    by (simp_all add: bad_member_def)
  have m: "get_name_matches bad_name_patterns (display_name bad_member) \<noteq> []"
    by (simp add: bad_matches)
  have f: "check_send_alert Map.empty bad_member 1600000000000000 = Inr True"
    by (simp add: check_send_alert_def)
  have w: "1600250000000000 - 1600000000500000 < timedelta_days DAYS_BETWEEN_ALERTS"
    by (simp add: timedelta_days_def DAYS_BETWEEN_ALERTS_def)
  from name_alert_cooldown [OF m _ _ f w, of 0 1600250000500000]
  have "fst (check_bad_words_in_name bad_name_patterns 0 bad_member 1600000000000000 1600000000500000 Map.empty)
       = [NameAlert 7 ''badger'' [''bad''], NameAlertsSet 7 1600000000500000]"
    and "fst (check_bad_words_in_name bad_name_patterns 0 bad_member 1600250000000000 1600250000500000
            (Map.empty(7 \<mapsto> 1600000000500000))) = []"
    using bad_matches by (simp_all add: timestamp_def bm)
  with bad_matches f show ?thesis by blast
qed

text \<open>
  Claim C4 at the failing input.  On a host nine hours ahead of UTC the time stamp
  written is nine hours behind the naive UTC time of the write.  A second check 2 days
  and 23 hours after the first write, so within the window of \<open>DAYS_BETWEEN_ALERTS\<close>
  days, runs on the cache the first check left; it sends a second alert and writes the
  cache again.
\<close>

theorem name_alert_repeats_east_of_utc:
  "get_name_matches bad_name_patterns (display_name bad_member) = [''bad'']
   \<and> fst (check_bad_words_in_name bad_name_patterns 32400000000 bad_member
            1600000000000000 1600000000500000 Map.empty)
       = [NameAlert 7 ''badger'' [''bad''], NameAlertsSet 7 1599967600500000]
   \<and> 1600255600500000 - 1600000000500000 < timedelta_days DAYS_BETWEEN_ALERTS
   \<and> fst (check_bad_words_in_name bad_name_patterns 32400000000 bad_member
            1600255600500000 1600255601000000
            (fst (snd (check_bad_words_in_name bad_name_patterns 32400000000 bad_member
                         1600000000000000 1600000000500000 Map.empty))))
       = [NameAlert 7 ''badger'' [''bad''], NameAlertsSet 7 1600223201000000]"
proof -
  have bm: "author_id bad_member = 7" "display_name bad_member = ''badger''"
    by (simp_all add: bad_member_def)
  have m: "get_name_matches bad_name_patterns ''badger'' = [''bad'']"
    using bad_matches by (simp add: bm)
  have first: "check_bad_words_in_name bad_name_patterns 32400000000 bad_member
            1600000000000000 1600000000500000 Map.empty
       = ([NameAlert 7 ''badger'' [''bad''], NameAlertsSet 7 1599967600500000],
          Map.empty(7 \<mapsto> 1599967600500000), None)"
    by (simp add: check_bad_words_in_name_def check_send_alert_def m bm Let_def
        filtering_py_datetime_def timestamp_def)
  have second: "fst (check_bad_words_in_name bad_name_patterns 32400000000 bad_member
            1600255600500000 1600255601000000 (Map.empty(7 \<mapsto> 1599967600500000)))
       = [NameAlert 7 ''badger'' [''bad''], NameAlertsSet 7 1600223201000000]"
    by (simp add: check_bad_words_in_name_def check_send_alert_def m bm Let_def bind_result_def
        filtering_py_datetime_def timestamp_def utcfromtimestamp_def timedelta_days_def
        DAYS_BETWEEN_ALERTS_def)
  have w: "1600255600500000 - 1600000000500000 < timedelta_days DAYS_BETWEEN_ALERTS"
    by (simp add: timedelta_days_def DAYS_BETWEEN_ALERTS_def)
  from first second w bad_matches show ?thesis by simp
qed

section \<open>The dispatch loop\<close>

lemma rule_actions_simps [simp]:
  "rule_actions [] = []"
  "rule_actions (RuleAction n a # evs) = RuleAction n a # rule_actions evs"
  "rule_actions (MatcherCall n # evs) = rule_actions evs"
  "rule_actions (InviteLookup c # evs) = rule_actions evs"
  by (simp_all add: rule_actions_def)

lemma matcher_calls_simps [simp]:
  "matcher_calls [] = []"
  "matcher_calls (RuleAction n a # evs) = matcher_calls evs"
  "matcher_calls (MatcherCall n # evs) = n # matcher_calls evs"
  "matcher_calls (InviteLookup c # evs) = matcher_calls evs"
  by (simp_all add: matcher_calls_def List.map_filter_simps)

lemma rule_actions_append [simp]: "rule_actions (xs @ ys) = rule_actions xs @ rule_actions ys"
  by (simp add: rule_actions_def)

lemma matcher_calls_append [simp]: "matcher_calls (xs @ ys) = matcher_calls xs @ matcher_calls ys"
  by (simp add: matcher_calls_def List.map_filter_def)

lemma rule_actions_call_events [simp]: "rule_actions (call_events msg f) = []"
  by (simp add: rule_actions_def call_events_def filter_empty_conv)

lemma matcher_calls_call_events [simp]: "matcher_calls (call_events msg f) = [rule_name f]"
  by (simp add: matcher_calls_def call_events_def List.map_filter_def filter_empty_conv comp_def)

lemma rule_actions_map_RuleAction [simp]: "rule_actions (map (RuleAction n) acts) = map (RuleAction n) acts"
  by (simp add: rule_actions_def filter_map comp_def)

lemma matcher_calls_map_RuleAction [simp]: "matcher_calls (map (RuleAction n) acts) = []"
  by (simp add: matcher_calls_def List.map_filter_def filter_map comp_def)

lemma rule_actions_skipped [simp]: "rule_actions (concat (map (skipped_events msg delta) pre)) = []"
  by (induction pre) (simp_all add: skipped_events_def rule_actions_def [of "[]"])

lemma matcher_calls_skipped [simp]:
  "matcher_calls (concat (map (skipped_events msg delta) pre)) = map rule_name (filter (rule_evaluated delta) pre)"
  by (induction pre) (simp_all add: skipped_events_def matcher_calls_def [of "[]"] List.map_filter_simps)

lemma filter_loop_passed_over:
  assumes "\<forall>g \<in> set pre. passed_over msg delta g"
  shows "filter_loop cfg env msg delta (pre @ rest) =
           (concat (map (skipped_events msg delta) pre) @ fst (filter_loop cfg env msg delta rest),
            snd (filter_loop cfg env msg delta rest))"
  using assms
proof (induction pre)
  case Nil
  show ?case by simp
next
  case (Cons g pre)
  then have IH: "filter_loop cfg env msg delta (pre @ rest) =
           (concat (map (skipped_events msg delta) pre) @ fst (filter_loop cfg env msg delta rest),
            snd (filter_loop cfg env msg delta rest))"
    and g: "passed_over msg delta g"
    by simp_all
  show ?case
  proof (cases "rule_evaluated delta g")
    case False
    then have "skipped_events msg delta g = []" by (simp add: skipped_events_def)
    with False IH show ?thesis by simp
  next
    case True
    then have "skipped_events msg delta g = call_events msg g" by (simp add: skipped_events_def)
    moreover from True g obtain m where "snd (rule_function g (rule_arg msg g)) = Inr m" and "\<not> truthy m"
      by (auto simp: passed_over_def split: sum.splits)
    ultimately show ?thesis using True IH by simp
  qed
qed

lemma filter_loop_match:
  assumes "rule_evaluated delta f" and "snd (rule_function f (rule_arg msg f)) = Inr m" and "truthy m"
  shows "filter_loop cfg env msg delta (f # post) =
           (call_events msg f @ map (RuleAction (rule_name f)) (fst (on_match cfg env msg f m)),
            case snd (on_match cfg env msg f m) of Raise e \<Rightarrow> Some e | _ \<Rightarrow> None)"
  using assms by simp

lemma filter_loop_first_match:
  assumes "\<forall>g \<in> set pre. passed_over msg delta g"
    and "rule_evaluated delta f" and "snd (rule_function f (rule_arg msg f)) = Inr m" and "truthy m"
  shows "filter_loop cfg env msg delta (pre @ f # post) =
           (concat (map (skipped_events msg delta) pre) @ call_events msg f
              @ map (RuleAction (rule_name f)) (fst (on_match cfg env msg f m)),
            case snd (on_match cfg env msg f m) of Raise e \<Rightarrow> Some e | _ \<Rightarrow> None)"
  unfolding filter_loop_passed_over [OF assms(1)] filter_loop_match [OF assms(2-4)] by simp

lemma filter_loop_one_rule:
  "RuleAction n1 a1 \<in> set (fst (filter_loop cfg env msg delta fs)) \<Longrightarrow>
   RuleAction n2 a2 \<in> set (fst (filter_loop cfg env msg delta fs)) \<Longrightarrow> n1 = n2"
proof (induction fs)
  case Nil
  then show ?case by simp
next
  case (Cons f fs)
  show ?case
  proof (cases "rule_evaluated delta f")
    case False
    with Cons show ?thesis by simp
  next
    case ev: True
    show ?thesis
    proof (cases "snd (rule_function f (rule_arg msg f))")
      case (Inl e)
      with ev Cons.prems show ?thesis by (auto simp: call_events_def)
    next
      case (Inr m)
      show ?thesis
      proof (cases "truthy m")
        case True
        with ev Inr Cons.prems show ?thesis by (auto simp: call_events_def)
      next
        case False
        with ev Inr Cons.prems have
          "RuleAction n1 a1 \<in> set (fst (filter_loop cfg env msg delta fs))"
          "RuleAction n2 a2 \<in> set (fst (filter_loop cfg env msg delta fs))"
          by (auto simp: call_events_def)
        then show ?thesis by (rule Cons.IH)
      qed
    qed
  qed
qed

text \<open>
  The entry of \<open>watch_regex\<close> has no key \<open>schedule_deletion\<close>: when this rule matches,
  line 274 raises \<open>KeyError\<close> before anything is reported.
\<close>

lemma watch_regex_match_raises_KeyError:
  "on_match cfg env msg (filters cfg ext env ! 3) m = ([], Raise KeyError)"
  by (simp add: filters_def on_match_def then_do_def delete_step_def schedule_step_def)

lemma length_example_filters: "length (example_filters env) = 7"
  by (simp add: example_filters_def filters_def)

lemma example_filters_split:
  "n < 7 \<Longrightarrow> example_filters env =
     take n (example_filters env) @ (example_filters env ! n) # drop (Suc n) (example_filters env)"
  by (rule id_take_nth_drop) (simp add: length_example_filters)

text \<open>
  Claim C1.  In the trace of one message or edit event all actions carry the name of
  one rule.  When the message is not exempt, the rules before \<open>f\<close> are passed over and
  \<open>f\<close> is evaluated and matches, the actions are exactly those of \<open>f\<close>, and the matchers
  called are those of the evaluated rules before \<open>f\<close> and of \<open>f\<close>: no rule declared
  after \<open>f\<close> is evaluated, whether it would match or not.
\<close>

theorem first_match_wins:
  "(RuleAction n1 a1 \<in> set (fst (filter_message cfg env fs msg delta))
      \<and> RuleAction n2 a2 \<in> set (fst (filter_message cfg env fs msg delta)) \<longrightarrow> n1 = n2)
   \<and> (filter_message_allowed cfg msg \<and> (\<forall>g \<in> set pre. passed_over msg delta g)
       \<and> rule_evaluated delta f \<and> snd (rule_function f (rule_arg msg f)) = Inr m \<and> truthy m \<longrightarrow>
         rule_actions (fst (filter_message cfg env (pre @ f # post) msg delta))
           = map (RuleAction (rule_name f)) (fst (on_match cfg env msg f m))
         \<and> matcher_calls (fst (filter_message cfg env (pre @ f # post) msg delta))
           = map rule_name (filter (rule_evaluated delta) pre) @ [rule_name f])"
proof (intro conjI impI)
  assume "RuleAction n1 a1 \<in> set (fst (filter_message cfg env fs msg delta))
      \<and> RuleAction n2 a2 \<in> set (fst (filter_message cfg env fs msg delta))"
  then show "n1 = n2"
    by (auto simp: filter_message_def split: if_splits dest: filter_loop_one_rule)
next
  assume h: "filter_message_allowed cfg msg \<and> (\<forall>g \<in> set pre. passed_over msg delta g)
       \<and> rule_evaluated delta f \<and> snd (rule_function f (rule_arg msg f)) = Inr m \<and> truthy m"
  then have "filter_message cfg env (pre @ f # post) msg delta =
           (concat (map (skipped_events msg delta) pre) @ call_events msg f
              @ map (RuleAction (rule_name f)) (fst (on_match cfg env msg f m)),
            case snd (on_match cfg env msg f m) of Raise e \<Rightarrow> Some e | _ \<Rightarrow> None)"
    by (simp add: filter_message_def filter_loop_first_match)
  then show "rule_actions (fst (filter_message cfg env (pre @ f # post) msg delta))
           = map (RuleAction (rule_name f)) (fst (on_match cfg env msg f m))"
    and "matcher_calls (fst (filter_message cfg env (pre @ f # post) msg delta))
           = map rule_name (filter (rule_evaluated delta) pre) @ [rule_name f]"
    by simp_all
qed

theorem first_match_wins_witness:
  "has_urls (domain_blacklist example_config) (content invite_and_domain) = TrueMatch
   \<and> rule_actions (fst (filter_message example_config example_env (example_filters example_env)
        invite_and_domain None)) =
       [RuleAction ''filter_invites'' (DeleteMessage 1),
        RuleAction ''filter_invites'' (SendDM 7 invites_notification),
        RuleAction ''filter_invites'' (StatsIncr ''filter_invites''),
        RuleAction ''filter_invites''
          (SendLogMessage
             \<lparr>log_filter_name = ''filter_invites'', log_filter_type = ''filter'', log_author_id = 7,
              log_via_dm = False, log_body = RawContent ''join discord.gg/abc http://evil.test/x'',
              log_additional = GuildEmbeds abc_info, log_ping_everyone = False\<rparr>)]
   \<and> matcher_calls (fst (filter_message example_config example_env (example_filters example_env)
        invite_and_domain None)) = [''filter_zalgo'', ''filter_invites'']"
proof -
  let ?fs = "example_filters example_env"
  have urls: "has_urls (domain_blacklist example_config) (content invite_and_domain) = TrueMatch"
    by code_simp
  have allowed: "filter_message_allowed example_config invite_and_domain"
    by code_simp
  have pre: "\<forall>g \<in> set (take 1 ?fs). passed_over invite_and_domain None g"
    by code_simp
  have ev: "rule_evaluated None (?fs ! 1)"
    by code_simp
  have m: "snd (rule_function (?fs ! 1) (rule_arg invite_and_domain (?fs ! 1))) = Inr (InviteMatch abc_info)"
    by code_simp
  have t: "truthy (InviteMatch abc_info)"
    by code_simp
  from first_match_wins [where cfg = example_config and env = example_env and msg = invite_and_domain
      and delta = None and pre = "take 1 ?fs" and f = "?fs ! 1" and post = "drop (Suc 1) ?fs"
      and m = "InviteMatch abc_info"] allowed pre ev m t
  have "rule_actions (fst (filter_message example_config example_env
           (take 1 ?fs @ (?fs ! 1) # drop (Suc 1) ?fs) invite_and_domain None))
         = map (RuleAction (rule_name (?fs ! 1)))
             (fst (on_match example_config example_env invite_and_domain (?fs ! 1) (InviteMatch abc_info)))"
    and "matcher_calls (fst (filter_message example_config example_env
           (take 1 ?fs @ (?fs ! 1) # drop (Suc 1) ?fs) invite_and_domain None))
         = map rule_name (filter (rule_evaluated None) (take 1 ?fs)) @ [rule_name (?fs ! 1)]"
    by blast+
  then have "rule_actions (fst (filter_message example_config example_env ?fs invite_and_domain None))
         = map (RuleAction (rule_name (?fs ! 1)))
             (fst (on_match example_config example_env invite_and_domain (?fs ! 1) (InviteMatch abc_info)))"
    and "matcher_calls (fst (filter_message example_config example_env ?fs invite_and_domain None))
         = map rule_name (filter (rule_evaluated None) (take 1 ?fs)) @ [rule_name (?fs ! 1)]"
    using example_filters_split [of 1 example_env] by (simp_all del: One_nat_def)
  moreover have "map (RuleAction (rule_name (?fs ! 1)))
             (fst (on_match example_config example_env invite_and_domain (?fs ! 1) (InviteMatch abc_info)))
       = [RuleAction ''filter_invites'' (DeleteMessage 1),
        RuleAction ''filter_invites'' (SendDM 7 invites_notification),
        RuleAction ''filter_invites'' (StatsIncr ''filter_invites''),
        RuleAction ''filter_invites''
          (SendLogMessage
             \<lparr>log_filter_name = ''filter_invites'', log_filter_type = ''filter'', log_author_id = 7,
              log_via_dm = False, log_body = RawContent ''join discord.gg/abc http://evil.test/x'',
              log_additional = GuildEmbeds abc_info, log_ping_everyone = False\<rparr>)]"
    by code_simp
  moreover have "map rule_name (filter (rule_evaluated None) (take 1 ?fs)) @ [rule_name (?fs ! 1)]
      = [''filter_zalgo'', ''filter_invites'']"
    by code_simp
  ultimately show ?thesis using urls by simp
qed


lemma rule_actions_name_check [simp]:
  "rule_actions (fst (check_bad_words_in_name patterns utc_offset member c1 c2 alerts)) = []"
  by (simp add: check_bad_words_in_name_def Let_def rule_actions_def split: sum.splits)

lemma fst_on_message:
  "snd (filter_message cfg env fs msg None) = None \<Longrightarrow>
   fst (on_message cfg env fs patterns utc_offset msg c1 c2 alerts) =
     fst (filter_message cfg env fs msg None)
       @ fst (check_bad_words_in_name patterns utc_offset (msg_author msg) c1 c2 alerts)"
  by (simp add: on_message_def Let_def)

text \<open>
  Claim C7, amended.  The first rule to match is a filter, the channel is not private
  and \<open>msg.delete()\<close> raises \<open>NotFound\<close>: in \<open>_filter_message\<close> the delete attempt is the
  only action of the event (no notification, no schedule, no report), no later rule is
  evaluated and no exception leaves it.  For a new message \<open>on_message\<close> then runs the
  username check: the trace of the event is that of \<open>_filter_message\<close> followed by that
  of \<open>check_bad_words_in_name\<close>, and still holds no action of a rule but the delete
  attempt.
\<close>

theorem hard_filter_not_found_stops:
  assumes "filter_message_allowed cfg msg"
    and "\<forall>g \<in> set pre. passed_over msg delta g"
    and "rule_evaluated delta f"
    and "snd (rule_function f (rule_arg msg f)) = Inr m"
    and "truthy m"
    and "rule_type f = ''filter''"
    and "\<not> is_private (msg_channel msg)"
    and "delete_outcome env = NotFound"
  shows "rule_actions (fst (filter_message cfg env (pre @ f # post) msg delta))
           = [RuleAction (rule_name f) (DeleteMessage (msg_id msg))]
       \<and> matcher_calls (fst (filter_message cfg env (pre @ f # post) msg delta))
           = map rule_name (filter (rule_evaluated delta) pre) @ [rule_name f]
       \<and> snd (filter_message cfg env (pre @ f # post) msg delta) = None
       \<and> (delta = None \<longrightarrow>
            fst (on_message cfg env (pre @ f # post) patterns utc_offset msg clock_check clock_set name_alerts)
              = fst (filter_message cfg env (pre @ f # post) msg None)
                  @ fst (check_bad_words_in_name patterns utc_offset (msg_author msg)
                           clock_check clock_set name_alerts)
            \<and> rule_actions
                 (fst (on_message cfg env (pre @ f # post) patterns utc_offset msg clock_check clock_set
                         name_alerts))
              = [RuleAction (rule_name f) (DeleteMessage (msg_id msg))])"
proof -
  from assms(6-8) have "on_match cfg env msg f m = ([DeleteMessage (msg_id msg)], Return)"
    by (simp add: on_match_def then_do_def delete_step_def)
  with assms(1) filter_loop_first_match [OF assms(2-5), of cfg env post]
  have a: "rule_actions (fst (filter_message cfg env (pre @ f # post) msg delta))
           = [RuleAction (rule_name f) (DeleteMessage (msg_id msg))]"
    and b: "matcher_calls (fst (filter_message cfg env (pre @ f # post) msg delta))
           = map rule_name (filter (rule_evaluated delta) pre) @ [rule_name f]"
    and c: "snd (filter_message cfg env (pre @ f # post) msg delta) = None"
    by (simp_all add: filter_message_def)
  have "fst (on_message cfg env (pre @ f # post) patterns utc_offset msg clock_check clock_set name_alerts)
              = fst (filter_message cfg env (pre @ f # post) msg None)
                  @ fst (check_bad_words_in_name patterns utc_offset (msg_author msg)
                           clock_check clock_set name_alerts)
            \<and> rule_actions
                 (fst (on_message cfg env (pre @ f # post) patterns utc_offset msg clock_check clock_set
                         name_alerts))
              = [RuleAction (rule_name f) (DeleteMessage (msg_id msg))]"
    if "delta = None"
    using a c that by (simp add: fst_on_message)
  with a b c show ?thesis by blast
qed

theorem hard_filter_not_found_stops_witness:
  "rule_actions (fst (filter_message example_config gone_env (example_filters gone_env)
        badger_invite None)) = [RuleAction ''filter_invites'' (DeleteMessage 1)]
   \<and> matcher_calls (fst (filter_message example_config gone_env (example_filters gone_env)
        badger_invite None)) = [''filter_zalgo'', ''filter_invites'']
   \<and> snd (filter_message example_config gone_env (example_filters gone_env) badger_invite None) = None
   \<and> rule_actions (fst (on_message example_config gone_env (example_filters gone_env) bad_name_patterns 0
        badger_invite 1600000000100000 1600000000200000 Map.empty))
       = [RuleAction ''filter_invites'' (DeleteMessage 1)]"
proof -
  let ?fs = "example_filters gone_env"
  have allowed: "filter_message_allowed example_config badger_invite"
    by code_simp
  have pre: "\<forall>g \<in> set (take 1 ?fs). passed_over badger_invite None g"
    by code_simp
  have ev: "rule_evaluated None (?fs ! 1)"
    by code_simp
  have m: "snd (rule_function (?fs ! 1) (rule_arg badger_invite (?fs ! 1))) = Inr (InviteMatch abc_info)"
    by code_simp
  have t: "truthy (InviteMatch abc_info)"
    by code_simp
  have ty: "rule_type (?fs ! 1) = ''filter''"
    by code_simp
  have pub: "\<not> is_private (msg_channel badger_invite)"
    by code_simp
  have gone: "delete_outcome gone_env = NotFound"
    by code_simp
  have names: "map rule_name (filter (rule_evaluated None) (take 1 ?fs)) @ [rule_name (?fs ! 1)]
      = [''filter_zalgo'', ''filter_invites'']"
    and name: "rule_name (?fs ! 1) = ''filter_invites''" and id: "msg_id badger_invite = 1"
    by code_simp+
  from hard_filter_not_found_stops [OF allowed pre ev m t ty pub gone, of "drop (Suc 1) ?fs"
      bad_name_patterns 0 1600000000100000 1600000000200000 Map.empty]
  show ?thesis
    using example_filters_split [of 1 gone_env] names name id by (simp del: One_nat_def)
qed

text \<open>
  Claim C7 as stated fails: after the swallowed \<open>NotFound\<close> the event of a new message
  still sends a username alert to the moderation log and writes the cooldown cache.
\<close>

theorem not_found_name_alert_counterexample:
  "delete_outcome gone_env = NotFound
   \<and> fst (on_message example_config gone_env (example_filters gone_env) bad_name_patterns 0
        badger_invite 1600000000100000 1600000000200000 Map.empty) =
       [MatcherCall ''filter_zalgo'', MatcherCall ''filter_invites'', InviteLookup ''abc'',
        RuleAction ''filter_invites'' (DeleteMessage 1),
        NameAlert 7 ''badger'' [''bad''], NameAlertsSet 7 1600000000200000]"
proof
  show "delete_outcome gone_env = NotFound"
    by code_simp
  show "fst (on_message example_config gone_env (example_filters gone_env) bad_name_patterns 0
        badger_invite 1600000000100000 1600000000200000 Map.empty) =
       [MatcherCall ''filter_zalgo'', MatcherCall ''filter_invites'', InviteLookup ''abc'',
        RuleAction ''filter_invites'' (DeleteMessage 1),
        NameAlert 7 ''badger'' [''bad''], NameAlertsSet 7 1600000000200000]"
    by code_simp
qed

text \<open>
  Claim C10.  \<open>on_message\<close> calls \<open>_filter_message\<close> without a delta, and without a
  delta a rule is evaluated exactly when it is enabled.  For a message that is not
  exempt, an enabled rich embed rule is evaluated whenever the loop reaches it, that is
  when the rules before it are passed over.
\<close>

theorem new_message_not_suppressed:
  "rule_evaluated None f = enabled f
   \<and> (filter_message_allowed cfg msg \<and> (\<forall>g \<in> set pre. passed_over msg None g)
       \<and> enabled f \<and> rule_name f = ''watch_rich_embeds'' \<longrightarrow>
        MatcherCall ''watch_rich_embeds''
          \<in> set (fst (on_message cfg env (pre @ f # post) patterns utc_offset msg clock_check clock_set name_alerts)))"
proof (intro conjI impI)
  show "rule_evaluated None f = enabled f"
    by (simp add: rule_evaluated_def double_trigger_def)
next
  assume h: "filter_message_allowed cfg msg \<and> (\<forall>g \<in> set pre. passed_over msg None g)
       \<and> enabled f \<and> rule_name f = ''watch_rich_embeds''"
  then have ev: "rule_evaluated None f"
    by (simp add: rule_evaluated_def double_trigger_def)
  from h have pre: "\<forall>g \<in> set pre. passed_over msg None g" by simp
  have "MatcherCall (rule_name f) \<in> set (fst (filter_loop cfg env msg None (f # post)))"
    using ev by (auto simp: call_events_def split: sum.splits)
  then have "MatcherCall (rule_name f) \<in> set (fst (filter_loop cfg env msg None (pre @ f # post)))"
    by (simp add: filter_loop_passed_over [OF pre])
  with h have "MatcherCall ''watch_rich_embeds'' \<in> set (fst (filter_message cfg env (pre @ f # post) msg None))"
    by (simp add: filter_message_def)
  then show "MatcherCall ''watch_rich_embeds''
          \<in> set (fst (on_message cfg env (pre @ f # post) patterns utc_offset msg clock_check clock_set name_alerts))"
    by (simp add: on_message_def Let_def split: option.splits)
qed


theorem new_message_not_suppressed_witness:
  "edited_at rich_new = None
   \<and> MatcherCall ''watch_rich_embeds''
       \<in> set (fst (on_message example_config example_env (example_filters example_env) bad_name_patterns 0
                    rich_new 1600000000100000 1600000000200000 Map.empty))"
proof -
  let ?fs = "example_filters example_env"
  have new: "edited_at rich_new = None"
    by code_simp
  have allowed: "filter_message_allowed example_config rich_new"
    by code_simp
  have pre: "\<forall>g \<in> set (take 4 ?fs). passed_over rich_new None g"
    by code_simp
  have en: "enabled (?fs ! 4)" and name: "rule_name (?fs ! 4) = ''watch_rich_embeds''"
    by code_simp+
  from new_message_not_suppressed [where cfg = example_config and msg = rich_new and pre = "take 4 ?fs"
      and f = "?fs ! 4" and post = "drop (Suc 4) ?fs" and env = example_env and patterns = bad_name_patterns
      and utc_offset = 0 and clock_check = 1600000000100000 and clock_set = 1600000000200000
      and name_alerts = Map.empty]
    allowed pre en name
  have "MatcherCall ''watch_rich_embeds''
       \<in> set (fst (on_message example_config example_env (take 4 ?fs @ (?fs ! 4) # drop (Suc 4) ?fs)
                    bad_name_patterns 0 rich_new 1600000000100000 1600000000200000 Map.empty))"
    by blast
  with new show ?thesis
    using example_filters_split [of 4 example_env] by simp
qed

text \<open>
  Claim C8 at the failing input.  The edit comes 5.00005 seconds after the creation of
  the message and adds a rich embed without a URL.  The delta of \<open>on_message_edit\<close> is
  the microsecond field, 50, so the rich embed rule is skipped: its matcher is not
  called, although it would match.  With the elapsed time as delta the rule is
  evaluated.
\<close>

theorem rich_embed_edit_skipped_after_five_seconds:
  "edited_at rich_after = Some (created_at rich_before + 5000050)
   \<and> has_rich_embed rich_after
   \<and> on_message_edit example_config example_env (example_filters example_env) rich_before rich_after =
       ([MatcherCall ''filter_zalgo'', MatcherCall ''filter_invites'', MatcherCall ''filter_domains'',
         MatcherCall ''watch_regex'', MatcherCall ''watch_words'', MatcherCall ''watch_tokens''], None)
   \<and> matcher_calls (fst (filter_message example_config example_env (example_filters example_env)
        rich_after (Some 5000050))) =
       [''filter_zalgo'', ''filter_invites'', ''filter_domains'', ''watch_regex'', ''watch_rich_embeds'']"
proof (intro conjI)
  show "edited_at rich_after = Some (created_at rich_before + 5000050)"
    by code_simp
  show "has_rich_embed rich_after"
    by code_simp
  show "on_message_edit example_config example_env (example_filters example_env) rich_before rich_after =
       ([MatcherCall ''filter_zalgo'', MatcherCall ''filter_invites'', MatcherCall ''filter_domains'',
         MatcherCall ''watch_regex'', MatcherCall ''watch_words'', MatcherCall ''watch_tokens''], None)"
    by code_simp
  show "matcher_calls (fst (filter_message example_config example_env (example_filters example_env)
        rich_after (Some 5000050))) =
       [''filter_zalgo'', ''filter_invites'', ''filter_domains'', ''watch_regex'', ''watch_rich_embeds'']"
    by code_simp
qed

end
